theory Spec2Isabelle
  imports Main
begin

section \<open>Python values, strings and exceptions\<close>

text \<open>
  A Python \<open>str\<close> is modelled as a \<open>string\<close>: every \<open>char\<close> stands for one code point
  in the range 0..255, and the functions below follow Python's Unicode behaviour on that
  range (\<open>str.isspace\<close>, \<open>str.lower\<close>). The argument of a normalizer is any Python value:
  \<open>None\<close>, a \<open>str\<close>, or some other object of which only the truth value matters.
\<close>

datatype pyval = PyNone | PyStr string | PyObj bool

datatype error = ValueError | IndexError | StorageFailure

definition isspace :: "char \<Rightarrow> bool" where
  "isspace c = (let n = (of_char c :: nat)
     in (9 \<le> n \<and> n \<le> 13) \<or> (28 \<le> n \<and> n \<le> 32) \<or> n = 133 \<or> n = 160)"

definition isupper :: "char \<Rightarrow> bool" where
  "isupper c = (let n = (of_char c :: nat)
     in (65 \<le> n \<and> n \<le> 90) \<or> (192 \<le> n \<and> n \<le> 222 \<and> n \<noteq> 215))"

definition lower_char :: "char \<Rightarrow> char" where
  "lower_char c = (if isupper c then char_of ((of_char c :: nat) + 32) else c)"

definition lower :: "string \<Rightarrow> string" where
  "lower s = map lower_char s"

text \<open>\<open>s.strip()\<close>: white space is removed at both ends.\<close>

definition strip :: "string \<Rightarrow> string" where
  "strip s = rev (dropWhile isspace (rev (dropWhile isspace s)))"

text \<open>\<open>s.rstrip(c)\<close> for a one-character argument.\<close>

definition rstrip_char :: "char \<Rightarrow> string \<Rightarrow> string" where
  "rstrip_char c s = rev (dropWhile (\<lambda>x. x = c) (rev s))"

text \<open>\<open>s.startswith(p)\<close> and \<open>sub in s\<close>.\<close>

definition startswith :: "string \<Rightarrow> string \<Rightarrow> bool" where
  "startswith s p = (take (length p) s = p)"

fun contains :: "string \<Rightarrow> string \<Rightarrow> bool" where
  "contains sub [] = (sub = [])"
| "contains sub (c # cs) = (startswith (c # cs) sub \<or> contains sub cs)"

text \<open>\<open>s.split(c)\<close> for a one-character separator: the result is never empty.\<close>

fun split_char :: "char \<Rightarrow> string \<Rightarrow> string list" where
  "split_char c [] = [[]]"
| "split_char c (x # xs) =
     (if x = c then [] # split_char c xs
      else (case split_char c xs of [] \<Rightarrow> [[x]] | w # ws \<Rightarrow> (x # w) # ws))"

text \<open>\<open>xs[i]\<close> for \<open>i \<ge> 0\<close>: an index out of range raises \<open>IndexError\<close>.\<close>

definition index :: "'a list \<Rightarrow> nat \<Rightarrow> error + 'a" where
  "index xs i = (if i < length xs then Inr (xs ! i) else Inl IndexError)"

section \<open>Regular expressions\<close>

text \<open>
  The patterns of \<open>normalization.py\<close> use character classes, concatenation, \<open>?\<close>,
  \<open>*\<close>, \<open>+\<close>, \<open>{m,n}\<close> and \<open>{m,}\<close>. \<open>lang\<close> is the set of strings a pattern
  denotes; \<open>rm\<close> is a matcher in the style of a backtracking engine: it returns, in the
  order a greedy search finds them, the rests of the subject left after each way of
  matching a prefix.
\<close>

datatype rexp =
    Cls "char \<Rightarrow> bool"
  | Seq rexp rexp
  | Rep nat nat rexp
  | AtLeast nat rexp

abbreviation Opt :: "rexp \<Rightarrow> rexp" where
  "Opt r \<equiv> Rep 0 1 r"

abbreviation Star :: "rexp \<Rightarrow> rexp" where
  "Star r \<equiv> AtLeast 0 r"

abbreviation Plus :: "rexp \<Rightarrow> rexp" where
  "Plus r \<equiv> AtLeast 1 r"

definition conc :: "string set \<Rightarrow> string set \<Rightarrow> string set" where
  "conc A B = {x @ y | x y. x \<in> A \<and> y \<in> B}"

primrec pow :: "string set \<Rightarrow> nat \<Rightarrow> string set" where
  "pow A 0 = {[]}"
| "pow A (Suc n) = conc A (pow A n)"

primrec lang :: "rexp \<Rightarrow> string set" where
  "lang (Cls P) = {[c] | c. P c}"
| "lang (Seq a b) = conc (lang a) (lang b)"
| "lang (Rep lo hi a) = (\<Union>k \<in> {lo..hi}. pow (lang a) k)"
| "lang (AtLeast n a) = (\<Union>k \<in> {n..}. pow (lang a) k)"

fun iter :: "(string \<Rightarrow> string list) \<Rightarrow> nat \<Rightarrow> nat \<Rightarrow> string \<Rightarrow> string list" where
  "iter f lo 0 s = (if lo = 0 then [s] else [])"
| "iter f lo (Suc hi) s =
     concat (map (iter f (lo - 1) hi) (f s)) @ (if lo = 0 then [s] else [])"

text \<open>Unbounded repetition: an iteration that consumes nothing is not repeated.\<close>

function star :: "(string \<Rightarrow> string list) \<Rightarrow> string \<Rightarrow> string list" where
  "star f s = concat (map (star f) (filter (\<lambda>t. length t < length s) (f s))) @ [s]"
  by pat_completeness auto
termination
  by (relation "measure (\<lambda>(f, s). length s)") auto

declare star.simps [simp del]

primrec rm :: "rexp \<Rightarrow> string \<Rightarrow> string list" where
  "rm (Cls P) s = (case s of [] \<Rightarrow> [] | c # cs \<Rightarrow> if P c then [cs] else [])"
| "rm (Seq a b) s = concat (map (rm b) (rm a s))"
| "rm (Rep lo hi a) s = iter (rm a) lo hi s"
| "rm (AtLeast n a) s = concat (map (star (rm a)) (iter (rm a) n n s))"

text \<open>
  \<open>re.match(r'^p$', s)\<close>: the match starts at the beginning of \<open>s\<close>, and \<open>$\<close> holds
  at the end of \<open>s\<close> and also just before a newline that ends \<open>s\<close>.
\<close>

definition re_match :: "rexp \<Rightarrow> string \<Rightarrow> bool" where
  "re_match p s = list_ex (\<lambda>t. t = [] \<or> t = [CHR 0x0A]) (rm p s)"

text \<open>\<open>re.match(r'\Ap\Z', s)\<close>: the whole of \<open>s\<close> is matched.\<close>

definition re_fullmatch :: "rexp \<Rightarrow> string \<Rightarrow> bool" where
  "re_fullmatch p s = list_ex (\<lambda>t. t = []) (rm p s)"

text \<open>
  \<open>re.sub(r'^p', '', s)\<close>: \<open>^\<close> holds at the beginning of \<open>s\<close> only, so at most the
  first match found there is removed.
\<close>

definition re_sub_prefix :: "rexp \<Rightarrow> string \<Rightarrow> string" where
  "re_sub_prefix p s = (case rm p s of [] \<Rightarrow> s | t # _ \<Rightarrow> t)"

subsection \<open>Character classes and the patterns of the source\<close>

definition az :: "char \<Rightarrow> bool" where
  "az c = (let n = (of_char c :: nat) in 97 \<le> n \<and> n \<le> 122)"

definition digit :: "char \<Rightarrow> bool" where
  "digit c = (let n = (of_char c :: nat) in 48 \<le> n \<and> n \<le> 57)"

text \<open>\<open>[a-z0-9]\<close>\<close>

definition alnum :: "char \<Rightarrow> bool" where
  "alnum c = (az c \<or> digit c)"

text \<open>\<open>[a-z0-9\-]\<close>\<close>

definition alnum_hyphen :: "char \<Rightarrow> bool" where
  "alnum_hyphen c = (alnum c \<or> c = CHR ''-'')"

text \<open>\<open>[a-z0-9._%+-]\<close>\<close>

definition email_local_char :: "char \<Rightarrow> bool" where
  "email_local_char c = (alnum c \<or> c = CHR ''.'' \<or> c = CHR ''_'' \<or> c = CHR ''%''
     \<or> c = CHR ''+'' \<or> c = CHR ''-'')"

text \<open>\<open>[a-z0-9.-]\<close>\<close>

definition email_host_char :: "char \<Rightarrow> bool" where
  "email_host_char c = (alnum c \<or> c = CHR ''.'' \<or> c = CHR ''-'')"

text \<open>A literal character, and a literal letter under \<open>re.IGNORECASE\<close>.\<close>

definition lit :: "char \<Rightarrow> char \<Rightarrow> bool" where
  "lit x c = (c = x)"

definition lit_ignorecase :: "char \<Rightarrow> char \<Rightarrow> bool" where
  "lit_ignorecase x c = (lower_char c = x)"

text \<open>\<open>r'^www\.'\<close> with \<open>flags=re.IGNORECASE\<close>\<close>

definition www_re :: rexp where
  "www_re =
     Seq (Cls (lit_ignorecase CHR ''w'')) (Seq (Cls (lit_ignorecase CHR ''w''))
       (Seq (Cls (lit_ignorecase CHR ''w'')) (Cls (lit CHR ''.''))))"

text \<open>\<open>[a-z0-9]([a-z0-9\-]{0,61}[a-z0-9])?\<close>\<close>

definition label_re :: rexp where
  "label_re = Seq (Cls alnum) (Opt (Seq (Rep 0 61 (Cls alnum_hyphen)) (Cls alnum)))"

text \<open>\<open>r'^[a-z0-9]([a-z0-9\-]{0,61}[a-z0-9])?(\.[a-z0-9]([a-z0-9\-]{0,61}[a-z0-9])?)*$'\<close>\<close>

definition domain_re :: rexp where
  "domain_re = Seq label_re (Star (Seq (Cls (lit CHR ''.'')) label_re))"

text \<open>\<open>r'^[a-z0-9._%+-]+@[a-z0-9.-]+\.[a-z]{2,}$'\<close>\<close>

definition email_pattern :: rexp where
  "email_pattern =
     Seq (Plus (Cls email_local_char)) (Seq (Cls (lit CHR ''@''))
       (Seq (Plus (Cls email_host_char)) (Seq (Cls (lit CHR ''.'')) (AtLeast 2 (Cls az)))))"

section \<open>The library function \<open>urllib.parse.urlparse\<close>\<close>

text \<open>
  A model of CPython 3.11's \<open>urlsplit\<close> and \<open>urlparse\<close> for \<open>str\<close> arguments with the
  default \<open>scheme=''\<close> and \<open>allow_fragments=True\<close>. The check of the network location
  under NFKC normalization never fails on code points below 256 and is left out.
\<close>

record parse_result =
  scheme :: string
  netloc :: string
  path :: string
  params :: string
  query :: string
  fragment :: string

definition hexdigit :: "char \<Rightarrow> bool" where
  "hexdigit c = (let n = (of_char c :: nat)
     in (48 \<le> n \<and> n \<le> 57) \<or> (65 \<le> n \<and> n \<le> 70) \<or> (97 \<le> n \<and> n \<le> 102))"

definition isascii_alpha :: "char \<Rightarrow> bool" where
  "isascii_alpha c = (let n = (of_char c :: nat)
     in (65 \<le> n \<and> n \<le> 90) \<or> (97 \<le> n \<and> n \<le> 122))"

definition scheme_char :: "char \<Rightarrow> bool" where
  "scheme_char c = (isascii_alpha c \<or> digit c \<or> c = CHR ''+'' \<or> c = CHR ''-'' \<or> c = CHR ''.'')"

definition c0_control_or_space :: "char \<Rightarrow> bool" where
  "c0_control_or_space c = ((of_char c :: nat) \<le> 32)"

definition unsafe_url_byte :: "char \<Rightarrow> bool" where
  "unsafe_url_byte c = (c = CHR 0x09 \<or> c = CHR 0x0D \<or> c = CHR 0x0A)"

definition decimal :: "string \<Rightarrow> nat" where
  "decimal s = foldl (\<lambda>a c. 10 * a + ((of_char c :: nat) - 48)) 0 s"

definition parse_octet_ok :: "string \<Rightarrow> bool" where
  "parse_octet_ok s = (s \<noteq> [] \<and> list_all digit s \<and> length s \<le> 3
     \<and> (s = ''0'' \<or> take 1 s \<noteq> ''0'') \<and> decimal s \<le> 255)"

definition ipv4_ok :: "string \<Rightarrow> bool" where
  "ipv4_ok s = (CHR ''/'' \<notin> set s \<and> s \<noteq> []
     \<and> length (split_char CHR ''.'' s) = 4 \<and> list_all parse_octet_ok (split_char CHR ''.'' s))"

definition parse_hextet_ok :: "string \<Rightarrow> bool" where
  "parse_hextet_ok s = (list_all hexdigit s \<and> length s \<le> 4 \<and> s \<noteq> [])"

definition ipv6_parts_ok :: "string list \<Rightarrow> bool" where
  "ipv6_parts_ok parts =
     (length parts \<le> 9 \<and>
      (case filter (\<lambda>i. parts ! i = []) [1 ..< length parts - 1] of
         [] \<Rightarrow> length parts = 8 \<and> list_all parse_hextet_ok parts
       | [skip_index] \<Rightarrow>
           (let leading = (take 1 parts = [[]]);
                trailing = (last parts = []);
                parts_hi = (if leading then skip_index - 1 else skip_index);
                parts_lo = (if trailing then length parts - skip_index - 1 - 1
                            else length parts - skip_index - 1)
            in (if leading then parts_hi = 0 else True)
               \<and> (if trailing then parts_lo = 0 else True)
               \<and> parts_hi + parts_lo < 8
               \<and> list_all parse_hextet_ok (take parts_hi parts)
               \<and> list_all parse_hextet_ok (drop (length parts - parts_lo) parts))
       | _ \<Rightarrow> False))"

definition ipv6_ok :: "string \<Rightarrow> bool" where
  "ipv6_ok s =
     (CHR ''/'' \<notin> set s \<and>
      (let addr = takeWhile (\<lambda>c. c \<noteq> CHR ''%'') s;
           scope_id = drop 1 (dropWhile (\<lambda>c. c \<noteq> CHR ''%'') s);
           parts = split_char CHR '':'' addr
       in (if CHR ''%'' \<in> set s then scope_id \<noteq> [] \<and> CHR ''%'' \<notin> set scope_id else True)
          \<and> addr \<noteq> [] \<and> 3 \<le> length parts
          \<and> (if CHR ''.'' \<in> set (last parts)
              then ipv4_ok (last parts) \<and> ipv6_parts_ok (butlast parts @ [''0'', ''0''])
              else ipv6_parts_ok parts)))"

text \<open>\<open>r"\Av[a-fA-F0-9]+\..+\Z"\<close>\<close>

definition ipvfuture_re :: rexp where
  "ipvfuture_re =
     Seq (Cls (lit CHR ''v'')) (Seq (Plus (Cls hexdigit))
       (Seq (Cls (lit CHR ''.'')) (Plus (Cls (\<lambda>c. c \<noteq> CHR 0x0A)))))"

text \<open>\<open>_check_bracketed_host\<close>: \<open>True\<close> where the library does not raise.\<close>

definition check_bracketed_host :: "string \<Rightarrow> bool" where
  "check_bracketed_host hostname =
     (if startswith hostname ''v'' then re_fullmatch ipvfuture_re hostname
      else \<not> ipv4_ok hostname \<and> ipv6_ok hostname)"

definition delimiter :: "char \<Rightarrow> bool" where
  "delimiter c = (c = CHR ''/'' \<or> c = CHR ''?'' \<or> c = CHR ''#'')"

text \<open>\<open>urlsplit\<close> returns scheme, netloc, path, query and fragment.\<close>

definition urlsplit :: "string \<Rightarrow> error + string \<times> string \<times> string \<times> string \<times> string" where
  "urlsplit url0 =
     (let url = dropWhile c0_control_or_space url0;
          url = filter (\<lambda>c. \<not> unsafe_url_byte c) url;
          pre = takeWhile (\<lambda>c. c \<noteq> CHR '':'') url;
          has_scheme = (CHR '':'' \<in> set url \<and> pre \<noteq> [] \<and> list_all isascii_alpha (take 1 url)
                        \<and> list_all scheme_char pre);
          sch = (if has_scheme then lower pre else []);
          url = (if has_scheme then drop (length pre + 1) url else url);
          has_netloc = (take 2 url = ''//'');
          loc = (if has_netloc then takeWhile (\<lambda>c. \<not> delimiter c) (drop 2 url) else []);
          url = (if has_netloc then dropWhile (\<lambda>c. \<not> delimiter c) (drop 2 url) else url);
          lb = (CHR ''['' \<in> set loc);
          rb = (CHR '']'' \<in> set loc)
      in if (lb \<and> \<not> rb) \<or> (rb \<and> \<not> lb) then Inl ValueError
         else if lb \<and> rb \<and> \<not> check_bracketed_host
                (takeWhile (\<lambda>c. c \<noteq> CHR '']'') (drop 1 (dropWhile (\<lambda>c. c \<noteq> CHR ''['') loc)))
         then Inl ValueError
         else
           let frag = drop 1 (dropWhile (\<lambda>c. c \<noteq> CHR ''#'') url);
               url = takeWhile (\<lambda>c. c \<noteq> CHR ''#'') url;
               qry = drop 1 (dropWhile (\<lambda>c. c \<noteq> CHR ''?'') url);
               url = takeWhile (\<lambda>c. c \<noteq> CHR ''?'') url
           in Inr (sch, loc, url, qry, frag))"

definition uses_params :: "string list" where
  "uses_params = ['''', ''ftp'', ''hdl'', ''prospero'', ''http'', ''imap'', ''https'', ''shttp'',
     ''rtsp'', ''rtsps'', ''rtspu'', ''sip'', ''sips'', ''mms'', ''sftp'', ''tel'']"

text \<open>\<open>_splitparams\<close>, called only on a \<open>url\<close> that contains a semicolon.\<close>

definition splitparams :: "string \<Rightarrow> string \<times> string" where
  "splitparams url =
     (if CHR ''/'' \<in> set url
      then (let k = length url - 1 - length (takeWhile (\<lambda>c. c \<noteq> CHR ''/'') (rev url));
                tail = drop k url
            in if CHR '';'' \<notin> set tail then (url, [])
               else (let i = k + length (takeWhile (\<lambda>c. c \<noteq> CHR '';'') tail)
                     in (take i url, drop (i + 1) url)))
      else (let i = length (takeWhile (\<lambda>c. c \<noteq> CHR '';'') url)
            in (take i url, drop (i + 1) url)))"

definition urlparse :: "string \<Rightarrow> error + parse_result" where
  "urlparse url0 =
     (case urlsplit url0 of
        Inl e \<Rightarrow> Inl e
      | Inr (sch, loc, url, qry, frag) \<Rightarrow>
          (let (url, prm) = (if sch \<in> set uses_params \<and> CHR '';'' \<in> set url
                             then splitparams url else (url, []))
           in Inr \<lparr>scheme = sch, netloc = loc, path = url, params = prm,
                    query = qry, fragment = frag\<rparr>))"

section \<open>The normalizers of \<open>app/utils/normalization.py\<close>\<close>

definition normalize_domain :: "pyval \<Rightarrow> error + string option" where
  "normalize_domain v =
     (case v of
        PyStr raw \<Rightarrow>
          if raw = [] then Inr None
          else let domain = strip raw in
          if domain = [] then Inr None
          else
            (case (if contains ''://'' domain
                   then (case urlparse domain of
                           Inl e \<Rightarrow> Inl e
                         | Inr parsed \<Rightarrow>
                             Inr (if netloc parsed \<noteq> [] then netloc parsed else path parsed))
                   else Inr domain) of
               Inl e \<Rightarrow> Inr None
             | Inr domain \<Rightarrow>
                 (case (if CHR '':'' \<in> set domain
                        then index (split_char CHR '':'' domain) 0 else Inr domain) of
                    Inl e \<Rightarrow> Inl e
                  | Inr domain \<Rightarrow>
                      (case (if CHR ''/'' \<in> set domain
                             then index (split_char CHR ''/'' domain) 0 else Inr domain) of
                         Inl e \<Rightarrow> Inl e
                       | Inr domain \<Rightarrow>
                           let domain = re_sub_prefix www_re domain;
                               domain = rstrip_char CHR ''.'' domain
                           in if CHR ''.'' \<notin> set domain then Inr None
                              else let domain = strip (lower domain)
                                   in if \<not> re_match domain_re domain then Inr None
                                      else Inr (Some domain))))
      | _ \<Rightarrow> Inr None)"

definition extract_domain_from_url :: "pyval \<Rightarrow> error + string option" where
  "extract_domain_from_url url = normalize_domain url"

definition normalize_linkedin_url :: "pyval \<Rightarrow> error + string option" where
  "normalize_linkedin_url v =
     (case v of
        PyStr raw \<Rightarrow>
          if raw = [] then Inr None
          else let linkedin = strip raw in
          if linkedin = [] then Inr None
          else
            (case (if contains ''://'' linkedin
                   then (case urlparse linkedin of
                           Inl e \<Rightarrow> Inl e
                         | Inr parsed \<Rightarrow> Inr (netloc parsed @ path parsed))
                   else Inr linkedin) of
               Inl e \<Rightarrow> Inr None
             | Inr linkedin \<Rightarrow>
                 let linkedin = re_sub_prefix www_re linkedin
                 in if \<not> startswith (lower linkedin) ''linkedin.com'' then Inr None
                    else let linkedin = rstrip_char CHR ''/'' linkedin;
                             linkedin = lower linkedin
                         in Inr (Some linkedin))
      | _ \<Rightarrow> Inr None)"

definition normalize_email :: "pyval \<Rightarrow> error + string option" where
  "normalize_email v =
     (case v of
        PyStr raw \<Rightarrow>
          if raw = [] then Inr None
          else let email = strip raw in
          if email = [] then Inr None
          else let email = lower email
               in if \<not> re_match email_pattern email then Inr None
                  else Inr (Some email)
      | _ \<Rightarrow> Inr None)"

definition normalize_place_id :: "pyval \<Rightarrow> error + string option" where
  "normalize_place_id v =
     (case v of
        PyStr raw \<Rightarrow>
          if raw = [] then Inr None
          else let place_id = strip raw in
          if place_id = [] then Inr None else Inr (Some place_id)
      | _ \<Rightarrow> Inr None)"

definition normalize_google_id :: "pyval \<Rightarrow> error + string option" where
  "normalize_google_id v =
     (case v of
        PyStr raw \<Rightarrow>
          if raw = [] then Inr None
          else let google_id = strip raw in
          if google_id = [] then Inr None else Inr (Some google_id)
      | _ \<Rightarrow> Inr None)"

definition extract_domain_from_email :: "pyval \<Rightarrow> error + string option" where
  "extract_domain_from_email v =
     (case normalize_email v of
        Inl e \<Rightarrow> Inl e
      | Inr None \<Rightarrow> Inr None
      | Inr (Some normalized_email) \<Rightarrow>
          if normalized_email = [] then Inr None
          else (case index (split_char CHR ''@'' normalized_email) 1 of
                  Inl e \<Rightarrow> Inl e
                | Inr d \<Rightarrow> Inr (Some d)))"


section \<open>The storage engine\<close>

text \<open>
  A row of the \<open>businesses\<close> table, with the columns that the queries of
  \<open>query_builders.py\<close> inspect; a column holding \<open>NULL\<close> is \<open>None\<close>. The other columns
  are carried along unread. The table is the list of its rows in the order in which the
  engine scans them.
\<close>

record business =
  business_id :: int
  site :: "string option"
  linkedin :: "string option"
  place_id :: "string option"
  email_1 :: "string option"
  email_2 :: "string option"
  email_3 :: "string option"
  google_id :: "string option"
  cid :: "string option"
  kgmid :: "string option"

datatype param = PText string | PTextArray "string list" | PInt int

text \<open>
  A connection: the table it reads, whether the engine still answers, and the statements
  sent so far, each with its bound parameters.
\<close>

record connection =
  table :: "business list"
  alive :: bool
  issued :: "(string \<times> param list) list"

text \<open>
  \<open>QueryBuilder.BASE_SELECT\<close>: the select list of 111 columns, with every run of white
  space of the source text written as one blank.
\<close>

definition BASE_SELECT :: string where
  "BASE_SELECT =
     ''SELECT id, query, name, name_for_emails, site, subtypes, category, type, phone, '' @
     ''phone_1, phone_2, phone_3, full_address, borough, street, city, postal_code, '' @
     ''state, us_state, country, country_code, latitude, longitude, h3, time_zone, '' @
     ''plus_code, area_service, rating, reviews, reviews_link, reviews_tags, '' @
     ''reviews_per_score, reviews_per_score_1, reviews_per_score_2, '' @
     ''reviews_per_score_3, reviews_per_score_4, reviews_per_score_5, reviews_id, '' @
     ''photos_count, photo, street_view, logo, located_in, working_hours, '' @
     ''working_hours_csv_compatible, working_hours_old_format, other_hours, '' @
     ''popular_times, business_status, about, range, prices, posts, description, '' @
     ''typical_time_spent, verified, owner_id, owner_title, owner_link, '' @
     ''reservation_links, booking_appointment_link, menu_link, order_links, '' @
     ''location_link, location_reviews_link, place_id, google_id, cid, kgmid, '' @
     ''located_google_id, email_1, email_1_full_name, email_1_first_name, '' @
     ''email_1_last_name, email_1_title, email_1_phone, email_2, email_2_full_name, '' @
     ''email_2_first_name, email_2_last_name, email_2_title, email_2_phone, email_3, '' @
     ''email_3_full_name, email_3_first_name, email_3_last_name, email_3_title, '' @
     ''email_3_phone, facebook, instagram, linkedin, tiktok, medium, reddit, skype, '' @
     ''snapchat, telegram, whatsapp, twitter, vimeo, youtube, github, crunchbase, '' @
     ''website_title, website_generator, website_description, website_keywords, '' @
     ''website_has_fb_pixel, website_has_google_tag, source_file, import_date FROM '' @
     ''businesses''"

text \<open>
  \<open>LIKE\<close> patterns: \<open>%\<close> stands for any string, \<open>_\<close> for any one character, and a
  backslash takes the next character literally. \<open>ILIKE\<close> compares without regard to
  case; a \<open>NULL\<close> column never matches.
\<close>

fun like_match :: "string \<Rightarrow> string \<Rightarrow> bool" where
  "like_match [] s = (s = [])"
| "like_match (p # ps) s =
     (if p = CHR ''%'' then
        like_match ps s \<or> (case s of [] \<Rightarrow> False | c # t \<Rightarrow> like_match (p # ps) t)
      else if p = CHR ''_'' then
        (case s of [] \<Rightarrow> False | c # t \<Rightarrow> like_match ps t)
      else if p = CHR 0x5C then
        (case ps of [] \<Rightarrow> False
         | q # qs \<Rightarrow> (case s of [] \<Rightarrow> False | c # t \<Rightarrow> c = q \<and> like_match qs t))
      else (case s of [] \<Rightarrow> False | c # t \<Rightarrow> c = p \<and> like_match ps t))"

definition ilike :: "string option \<Rightarrow> string \<Rightarrow> bool" where
  "ilike column pattern =
     (case column of None \<Rightarrow> False | Some s \<Rightarrow> like_match (lower pattern) (lower s))"

text \<open>The \<open>WHERE\<close> clauses of the seven statements.\<close>

definition where_domain :: "string \<Rightarrow> string \<Rightarrow> business \<Rightarrow> bool" where
  "where_domain p1 p2 r = (ilike (site r) p1 \<or> ilike (site r) p2)"

definition where_linkedin :: "string \<Rightarrow> business \<Rightarrow> bool" where
  "where_linkedin p1 r = ilike (linkedin r) p1"

definition where_place_id :: "string \<Rightarrow> business \<Rightarrow> bool" where
  "where_place_id p1 r = (place_id r = Some p1)"

definition where_email :: "string \<Rightarrow> business \<Rightarrow> bool" where
  "where_email p1 r = (email_1 r = Some p1 \<or> email_2 r = Some p1 \<or> email_3 r = Some p1)"

definition where_google_id :: "string \<Rightarrow> business \<Rightarrow> bool" where
  "where_google_id p1 r = (google_id r = Some p1 \<or> cid r = Some p1 \<or> kgmid r = Some p1)"

definition eq_any :: "string option \<Rightarrow> string list \<Rightarrow> bool" where
  "eq_any column keys = (case column of None \<Rightarrow> False | Some s \<Rightarrow> s \<in> set keys)"

definition where_emails :: "string list \<Rightarrow> business \<Rightarrow> bool" where
  "where_emails keys r = (eq_any (email_1 r) keys \<or> eq_any (email_2 r) keys \<or> eq_any (email_3 r) keys)"

definition where_enriched :: "business \<Rightarrow> bool" where
  "where_enriched r = (email_1 r \<noteq> None)"

text \<open>
  What the engine answers to a statement text with its parameters. A text other than
  the seven of this program, parameters of the wrong number or type, and a negative
  \<open>LIMIT\<close> or \<open>OFFSET\<close> are errors.
\<close>

definition run_query :: "business list \<Rightarrow> string \<Rightarrow> param list \<Rightarrow> error + business list" where
  "run_query tbl q ps =
     (if q = BASE_SELECT @ '' WHERE site ILIKE $1 OR site ILIKE $2 LIMIT 100'' then
        (case ps of [PText p1, PText p2] \<Rightarrow> Inr (take 100 (filter (where_domain p1 p2) tbl))
         | _ \<Rightarrow> Inl StorageFailure)
      else if q = BASE_SELECT @ '' WHERE linkedin ILIKE $1 LIMIT 100'' then
        (case ps of [PText p1] \<Rightarrow> Inr (take 100 (filter (where_linkedin p1) tbl))
         | _ \<Rightarrow> Inl StorageFailure)
      else if q = BASE_SELECT @ '' WHERE place_id = $1 LIMIT 1'' then
        (case ps of [PText p1] \<Rightarrow> Inr (take 1 (filter (where_place_id p1) tbl))
         | _ \<Rightarrow> Inl StorageFailure)
      else if q = BASE_SELECT @ '' WHERE email_1 = $1 OR email_2 = $1 OR email_3 = $1 LIMIT 100'' then
        (case ps of [PText p1] \<Rightarrow> Inr (take 100 (filter (where_email p1) tbl))
         | _ \<Rightarrow> Inl StorageFailure)
      else if q = BASE_SELECT @ '' WHERE google_id = $1 OR cid = $1 OR kgmid = $1 LIMIT 100'' then
        (case ps of [PText p1] \<Rightarrow> Inr (take 100 (filter (where_google_id p1) tbl))
         | _ \<Rightarrow> Inl StorageFailure)
      else if q = BASE_SELECT @ '' WHERE email_1 = ANY($1::text[]) OR email_2 = ANY($1::text[]) OR email_3 = ANY($1::text[]) LIMIT 1000'' then
        (case ps of [PTextArray keys] \<Rightarrow> Inr (take 1000 (filter (where_emails keys) tbl))
         | _ \<Rightarrow> Inl StorageFailure)
      else if q = BASE_SELECT @ '' WHERE email_1 IS NOT NULL ORDER BY id LIMIT $1 OFFSET $2'' then
        (case ps of
           [PInt l, PInt off] \<Rightarrow>
             if l < 0 \<or> off < 0 then Inl StorageFailure
             else Inr (take (nat l) (drop (nat off)
                    (sort_key business_id (filter where_enriched tbl))))
         | _ \<Rightarrow> Inl StorageFailure)
      else Inl StorageFailure)"

text \<open>
  \<open>conn.fetch(query, *args)\<close> and \<open>conn.fetchrow(query, *args)\<close>; a prepared statement
  is its text, and \<open>stmt.fetch(*args)\<close> sends that text.
\<close>

definition fetch :: "connection \<Rightarrow> string \<Rightarrow> param list \<Rightarrow> (error + business list) \<times> connection" where
  "fetch conn q ps =
     (if alive conn then run_query (table conn) q ps else Inl StorageFailure,
      conn\<lparr>issued := issued conn @ [(q, ps)]\<rparr>)"

definition fetchrow :: "connection \<Rightarrow> string \<Rightarrow> param list \<Rightarrow> (error + business option) \<times> connection" where
  "fetchrow conn q ps =
     (case fetch conn q ps of
        (Inl e, conn') \<Rightarrow> (Inl e, conn')
      | (Inr rows, conn') \<Rightarrow> (Inr (case rows of [] \<Rightarrow> None | r # _ \<Rightarrow> Some r), conn'))"

section \<open>\<open>QueryBuilder\<close> of \<open>app/utils/query_builders.py\<close>\<close>

definition prepare_statements :: "connection \<Rightarrow> error + (string \<times> string) list" where
  "prepare_statements conn =
     (if \<not> alive conn then Inl StorageFailure
      else Inr
        [(''by_domain'', BASE_SELECT @ '' WHERE site ILIKE $1 OR site ILIKE $2 LIMIT 100''),
         (''by_linkedin'', BASE_SELECT @ '' WHERE linkedin ILIKE $1 LIMIT 100''),
         (''by_place_id'', BASE_SELECT @ '' WHERE place_id = $1 LIMIT 1''),
         (''by_email'', BASE_SELECT @ '' WHERE email_1 = $1 OR email_2 = $1 OR email_3 = $1 LIMIT 100''),
         (''by_google_id'', BASE_SELECT @ '' WHERE google_id = $1 OR cid = $1 OR kgmid = $1 LIMIT 100''),
         (''batch_by_emails'', BASE_SELECT @ '' WHERE email_1 = ANY($1::text[]) OR email_2 = ANY($1::text[]) OR email_3 = ANY($1::text[]) LIMIT 1000''),
         (''enriched_contacts'', BASE_SELECT @ '' WHERE email_1 IS NOT NULL ORDER BY id LIMIT $1 OFFSET $2'')])"

definition by_domain :: "connection \<Rightarrow> pyval \<Rightarrow> string option \<Rightarrow> (error + business list) \<times> connection" where
  "by_domain conn domain use_prepared =
     (case normalize_domain domain of
        Inl e \<Rightarrow> (Inl e, conn)
      | Inr None \<Rightarrow> (Inr [], conn)
      | Inr (Some normalized_domain) \<Rightarrow>
          if normalized_domain = [] then (Inr [], conn)
          else
            let domain_pattern = ''%'' @ normalized_domain @ ''%'';
                domain_exact = ''%//'' @ normalized_domain @ ''%''
            in (case use_prepared of
                  Some stmt \<Rightarrow> fetch conn stmt [PText domain_exact, PText domain_pattern]
                | None \<Rightarrow>
                    let query = BASE_SELECT @ '' WHERE site ILIKE $1 OR site ILIKE $2 LIMIT 100''
                    in fetch conn query [PText domain_exact, PText domain_pattern]))"

definition by_linkedin :: "connection \<Rightarrow> pyval \<Rightarrow> string option \<Rightarrow> (error + business list) \<times> connection" where
  "by_linkedin conn linkedin_raw use_prepared =
     (case normalize_linkedin_url linkedin_raw of
        Inl e \<Rightarrow> (Inl e, conn)
      | Inr None \<Rightarrow> (Inr [], conn)
      | Inr (Some normalized_linkedin) \<Rightarrow>
          if normalized_linkedin = [] then (Inr [], conn)
          else
            let linkedin_pattern = ''%'' @ normalized_linkedin @ ''%''
            in (case use_prepared of
                  Some stmt \<Rightarrow> fetch conn stmt [PText linkedin_pattern]
                | None \<Rightarrow>
                    let query = BASE_SELECT @ '' WHERE linkedin ILIKE $1 LIMIT 100''
                    in fetch conn query [PText linkedin_pattern]))"

definition by_place_id :: "connection \<Rightarrow> pyval \<Rightarrow> string option \<Rightarrow> (error + business option) \<times> connection" where
  "by_place_id conn place_id_raw use_prepared =
     (case normalize_place_id place_id_raw of
        Inl e \<Rightarrow> (Inl e, conn)
      | Inr None \<Rightarrow> (Inr None, conn)
      | Inr (Some normalized_place_id) \<Rightarrow>
          if normalized_place_id = [] then (Inr None, conn)
          else
            (case use_prepared of
               Some stmt \<Rightarrow> fetchrow conn stmt [PText normalized_place_id]
             | None \<Rightarrow>
                 let query = BASE_SELECT @ '' WHERE place_id = $1 LIMIT 1''
                 in fetchrow conn query [PText normalized_place_id]))"

definition by_email :: "connection \<Rightarrow> pyval \<Rightarrow> string option \<Rightarrow> (error + business list) \<times> connection" where
  "by_email conn email use_prepared =
     (case normalize_email email of
        Inl e \<Rightarrow> (Inl e, conn)
      | Inr None \<Rightarrow> (Inr [], conn)
      | Inr (Some normalized_email) \<Rightarrow>
          if normalized_email = [] then (Inr [], conn)
          else
            (case use_prepared of
               Some stmt \<Rightarrow> fetch conn stmt [PText normalized_email]
             | None \<Rightarrow>
                 let query = BASE_SELECT @ '' WHERE email_1 = $1 OR email_2 = $1 OR email_3 = $1 LIMIT 100''
                 in fetch conn query [PText normalized_email]))"

definition by_google_id :: "connection \<Rightarrow> pyval \<Rightarrow> string option \<Rightarrow> (error + business list) \<times> connection" where
  "by_google_id conn google_id_raw use_prepared =
     (case normalize_google_id google_id_raw of
        Inl e \<Rightarrow> (Inl e, conn)
      | Inr None \<Rightarrow> (Inr [], conn)
      | Inr (Some normalized_google_id) \<Rightarrow>
          if normalized_google_id = [] then (Inr [], conn)
          else
            (case use_prepared of
               Some stmt \<Rightarrow> fetch conn stmt [PText normalized_google_id]
             | None \<Rightarrow>
                 let query = BASE_SELECT @ '' WHERE google_id = $1 OR cid = $1 OR kgmid = $1 LIMIT 100''
                 in fetch conn query [PText normalized_google_id]))"

text \<open>
  \<open>[normalize_email(e) for e in emails if normalize_email(e)]\<close>: an entry whose
  normalization is \<open>None\<close> (or empty) is left out.
\<close>

fun normalized_emails :: "pyval list \<Rightarrow> error + string list" where
  "normalized_emails [] = Inr []"
| "normalized_emails (e # es) =
     (case normalize_email e of
        Inl x \<Rightarrow> Inl x
      | Inr None \<Rightarrow> normalized_emails es
      | Inr (Some k) \<Rightarrow>
          if k = [] then normalized_emails es
          else (case normalized_emails es of Inl x \<Rightarrow> Inl x | Inr ks \<Rightarrow> Inr (k # ks)))"

definition batch_by_emails :: "connection \<Rightarrow> pyval list \<Rightarrow> string option \<Rightarrow> (error + business list) \<times> connection" where
  "batch_by_emails conn emails use_prepared =
     (case normalized_emails emails of
        Inl e \<Rightarrow> (Inl e, conn)
      | Inr keys \<Rightarrow>
          if keys = [] then (Inr [], conn)
          else
            (case use_prepared of
               Some stmt \<Rightarrow> fetch conn stmt [PTextArray keys]
             | None \<Rightarrow>
                 let query = BASE_SELECT @ '' WHERE email_1 = ANY($1::text[]) OR email_2 = ANY($1::text[]) OR email_3 = ANY($1::text[]) LIMIT 1000''
                 in fetch conn query [PTextArray keys]))"

definition enriched_contacts :: "connection \<Rightarrow> int \<Rightarrow> int \<Rightarrow> string option \<Rightarrow> (error + business list) \<times> connection" where
  "enriched_contacts conn limit offset use_prepared =
     (case use_prepared of
        Some stmt \<Rightarrow> fetch conn stmt [PInt limit, PInt offset]
      | None \<Rightarrow>
          let query = BASE_SELECT @ '' WHERE email_1 IS NOT NULL ORDER BY id LIMIT $1 OFFSET $2''
          in fetch conn query [PInt limit, PInt offset])"

section \<open>The endpoints of \<open>app/api/v1/outscraper/business.py\<close>\<close>

text \<open>
  An endpoint answers with a body or with an HTTP error status: 422 where the declared
  bounds of a parameter are violated, 404 from the place-ID endpoint, 500 for every
  exception of the lookup. A list response carries \<open>count\<close> and \<open>businesses\<close>.
\<close>

datatype 'a response = Ok 'a | HTTPException nat

definition get_business_by_place_id :: "connection \<Rightarrow> string \<Rightarrow> business response \<times> connection" where
  "get_business_by_place_id conn place_id_raw =
     (case by_place_id conn (PyStr place_id_raw) None of
        (Inl e, conn') \<Rightarrow> (HTTPException 500, conn')
      | (Inr None, conn') \<Rightarrow> (HTTPException 404, conn')
      | (Inr (Some b), conn') \<Rightarrow> (Ok b, conn'))"

definition get_businesses_by_email_batch :: "connection \<Rightarrow> string list \<Rightarrow> (nat \<times> business list) response \<times> connection" where
  "get_businesses_by_email_batch conn emails =
     (if length emails < 1 \<or> 100 < length emails then (HTTPException 422, conn)
      else (case batch_by_emails conn (map PyStr emails) None of
              (Inl e, conn') \<Rightarrow> (HTTPException 500, conn')
            | (Inr businesses, conn') \<Rightarrow> (Ok (length businesses, businesses), conn')))"

definition get_enriched_contacts :: "connection \<Rightarrow> int \<Rightarrow> int \<Rightarrow> (nat \<times> business list) response \<times> connection" where
  "get_enriched_contacts conn limit offset =
     (if limit < 1 \<or> 1000 < limit \<or> offset < 0 then (HTTPException 422, conn)
      else (case enriched_contacts conn limit offset None of
              (Inl e, conn') \<Rightarrow> (HTTPException 500, conn')
            | (Inr businesses, conn') \<Rightarrow> (Ok (length businesses, businesses), conn')))"

section \<open>Specification-level notions\<close>

text \<open>
  A DNS label in the words of the specification: letters, digits and hyphens, 1 to 63
  characters, no hyphen at either end; and a sequence of such labels separated by dots.
\<close>

definition label_ok :: "string \<Rightarrow> bool" where
  "label_ok l = (l \<noteq> [] \<and> length l \<le> 63 \<and> list_all alnum_hyphen l
     \<and> hd l \<noteq> CHR ''-'' \<and> last l \<noteq> CHR ''-'')"

definition dns_labels :: "string \<Rightarrow> bool" where
  "dns_labels s = list_all label_ok (split_char CHR ''.'' s)"

definition strip_www :: "string \<Rightarrow> string" where
  "strip_www x = (if startswith (lower x) ''www.'' then drop 4 x else x)"

definition host_part :: "string \<Rightarrow> string option" where
  "host_part t =
     (if contains ''://'' t
      then (case urlparse t of
              Inl e \<Rightarrow> None
            | Inr parsed \<Rightarrow> Some (if netloc parsed \<noteq> [] then netloc parsed else path parsed))
      else Some t)"

definition link_part :: "string \<Rightarrow> string option" where
  "link_part t =
     (if contains ''://'' t
      then (case urlparse t of
              Inl e \<Rightarrow> None
            | Inr parsed \<Rightarrow> Some (netloc parsed @ path parsed))
      else Some t)"

text \<open>
  Domain normalization in the words of the specification: the scheme and the userinfo
  are stripped and only the host is kept (port, path, query and fragment are dropped),
  then a single leading \<open>www.\<close> and the trailing dots are stripped, the result is
  lowercased and accepted when it is a DNS-label sequence with at least one dot.
\<close>

fun after_sep :: "string \<Rightarrow> string \<Rightarrow> string" where
  "after_sep sep [] = []"
| "after_sep sep (c # cs) =
     (if startswith (c # cs) sep then drop (length sep) (c # cs) else after_sep sep cs)"

definition spec_host :: "string \<Rightarrow> string" where
  "spec_host t =
     (let a = (if contains ''://'' t then after_sep ''://'' t else t);
          authority = takeWhile (\<lambda>c. c \<noteq> CHR ''/'' \<and> c \<noteq> CHR ''?'' \<and> c \<noteq> CHR ''#'') a;
          hostport = rev (takeWhile (\<lambda>c. c \<noteq> CHR ''@'') (rev authority))
      in takeWhile (\<lambda>c. c \<noteq> CHR '':'') hostport)"

definition spec_normalize_domain :: "string \<Rightarrow> string option" where
  "spec_normalize_domain s =
     (let t = strip s
      in if t = [] then None
         else let d = lower (rstrip_char CHR ''.'' (strip_www (spec_host t)))
              in if CHR ''.'' \<in> set d \<and> dns_labels d then Some d else None)"

text \<open>
  The shape of an email address in the words of the specification: a local part of
  \<open>[a-z0-9._%+-]+\<close>, one \<open>@\<close>, a host that is a sequence of dot-separated labels
  (non-empty strings of letters, digits and hyphens), a dot and a TLD of at least two
  letters.
\<close>

definition host_label :: "string \<Rightarrow> bool" where
  "host_label l = (l \<noteq> [] \<and> list_all alnum_hyphen l)"

definition spec_email_shape :: "string \<Rightarrow> bool" where
  "spec_email_shape s =
     (case split_char CHR ''@'' s of
        [l, d] \<Rightarrow>
          l \<noteq> [] \<and> list_all email_local_char l
          \<and> 2 \<le> length (split_char CHR ''.'' d)
          \<and> list_all host_label (butlast (split_char CHR ''.'' d))
          \<and> 2 \<le> length (last (split_char CHR ''.'' d))
          \<and> list_all az (last (split_char CHR ''.'' d))
      | _ \<Rightarrow> False)"


text \<open>
  The keys a batch keeps: each entry is normalized on its own, and an entry that fails
  contributes nothing.
\<close>

definition filtered_keys :: "pyval list \<Rightarrow> string list" where
  "filtered_keys emails =
     concat (map (\<lambda>e. case normalize_email e of Inr (Some k) \<Rightarrow> [k] | _ \<Rightarrow> []) emails)"

text \<open>The full enriched set: the rows with a primary email, by ascending id.\<close>

definition enriched_set :: "business list \<Rightarrow> business list" where
  "enriched_set tbl = sort_key business_id (filter where_enriched tbl)"

text \<open>Rows and connections for concrete instances.\<close>

definition example_business :: "int \<Rightarrow> string option \<Rightarrow> string option \<Rightarrow> business" where
  "example_business i pid em =
     \<lparr>business_id = i, site = None, linkedin = None, place_id = pid, email_1 = em,
      email_2 = None, email_3 = None, google_id = None, cid = None, kgmid = None\<rparr>"

definition example_conn :: "business list \<Rightarrow> connection" where
  "example_conn tbl = \<lparr>table = tbl, alive = True, issued = []\<rparr>"


definition example_row :: "nat \<Rightarrow> business" where
  "example_row i =
     \<lparr>business_id = int i, site = Some ''http://Example.com'',
      linkedin = Some ''linkedin.com/in/x'', place_id = Some ''ChIJ1'',
      email_1 = Some ''test@example.com'', email_2 = None, email_3 = None,
      google_id = Some ''0x89c2'', cid = None, kgmid = None\<rparr>"

definition example_table :: "nat \<Rightarrow> business list" where
  "example_table n = map example_row [0..<n]"
section \<open>Evaluation\<close>

lemma iter_numeral:
  "iter f lo (numeral k) s =
     concat (map (iter f (lo - 1) (pred_numeral k)) (f s)) @ (if lo = 0 then [s] else [])"
  by (simp add: numeral_eq_Suc)

lemmas str_ev = isspace_def isupper_def lower_char_def lower_def strip_def rstrip_char_def
  startswith_def index_def char_of_def bit_Suc_0_iff Let_def

lemmas re_ev = re_match_def re_fullmatch_def re_sub_prefix_def az_def digit_def alnum_def
  alnum_hyphen_def email_local_char_def email_host_char_def lit_def lit_ignorecase_def
  www_re_def label_re_def domain_re_def email_pattern_def iter_numeral star.simps

lemmas url_ev = urlparse_def urlsplit_def splitparams_def uses_params_def delimiter_def
  c0_control_or_space_def unsafe_url_byte_def isascii_alpha_def scheme_char_def

section \<open>The matcher computes the language\<close>

lemma conc_iff: "w \<in> conc A B \<longleftrightarrow> (\<exists>x y. w = x @ y \<and> x \<in> A \<and> y \<in> B)"
  by (auto simp: conc_def)

lemma concI: "x \<in> A \<Longrightarrow> y \<in> B \<Longrightarrow> x @ y \<in> conc A B"
  by (auto simp: conc_def)

lemma conc_assoc: "conc (conc A B) C = conc A (conc B C)"
proof (rule set_eqI, rule iffI)
  fix w assume "w \<in> conc (conc A B) C"
  then obtain x y z where w: "w = (x @ y) @ z" and m: "x \<in> A" "y \<in> B" "z \<in> C"
    unfolding conc_iff by blast
  have "x @ (y @ z) \<in> conc A (conc B C)" using m by (intro concI)
  then show "w \<in> conc A (conc B C)" using w by simp
next
  fix w assume "w \<in> conc A (conc B C)"
  then obtain x y z where w: "w = x @ (y @ z)" and m: "x \<in> A" "y \<in> B" "z \<in> C"
    unfolding conc_iff by blast
  have "(x @ y) @ z \<in> conc (conc A B) C" using m by (intro concI)
  then show "w \<in> conc (conc A B) C" using w by simp
qed

lemma conc_eps: "conc {[]} A = A"
  by (auto simp: conc_def)

lemma pow_add: "pow A (m + n) = conc (pow A m) (pow A n)"
  by (induction m) (simp_all add: conc_eps conc_assoc)

lemma iter_correct:
  assumes f: "\<And>s t. t \<in> set (f s) \<longleftrightarrow> (\<exists>p. p \<in> A \<and> s = p @ t)"
  shows "t \<in> set (iter f lo hi s) \<longleftrightarrow> (\<exists>k p. lo \<le> k \<and> k \<le> hi \<and> p \<in> pow A k \<and> s = p @ t)"
proof (induction hi arbitrary: lo s)
  case 0
  show ?case by auto
next
  case (Suc hi)
  show ?case
  proof
    assume "t \<in> set (iter f lo (Suc hi) s)"
    then consider (rec) u where "u \<in> set (f s)" "t \<in> set (iter f (lo - 1) hi u)"
      | (stop) "lo = 0" "t = s"
      by (auto split: if_splits)
    then show "\<exists>k p. lo \<le> k \<and> k \<le> Suc hi \<and> p \<in> pow A k \<and> s = p @ t"
    proof cases
      case rec
      from rec(1) obtain p1 where p1: "p1 \<in> A" "s = p1 @ u" using f by blast
      from rec(2) obtain k p where kp: "lo - 1 \<le> k" "k \<le> hi" "p \<in> pow A k" "u = p @ t"
        using Suc.IH by blast
      have "p1 @ p \<in> pow A (Suc k)" using p1 kp by (simp add: concI)
      moreover have "lo \<le> Suc k" "Suc k \<le> Suc hi" using kp by auto
      moreover have "s = (p1 @ p) @ t" using p1 kp by simp
      ultimately show ?thesis by blast
    next
      case stop
      then have "lo \<le> 0 \<and> 0 \<le> Suc hi \<and> [] \<in> pow A 0 \<and> s = [] @ t" by simp
      then show ?thesis by blast
    qed
  next
    assume "\<exists>k p. lo \<le> k \<and> k \<le> Suc hi \<and> p \<in> pow A k \<and> s = p @ t"
    then obtain k p where h: "lo \<le> k" "k \<le> Suc hi" "p \<in> pow A k" "s = p @ t" by blast
    show "t \<in> set (iter f lo (Suc hi) s)"
    proof (cases k)
      case 0
      then show ?thesis using h by auto
    next
      case (Suc j)
      then obtain p1 p2 where p: "p = p1 @ p2" "p1 \<in> A" "p2 \<in> pow A j"
        using h by (auto simp: conc_iff)
      have "p2 @ t \<in> set (f s)" using p h f by auto
      moreover have "t \<in> set (iter f (lo - 1) hi (p2 @ t))"
      proof -
        have "lo - 1 \<le> j" "j \<le> hi" using h Suc by auto
        then show ?thesis using p Suc.IH by blast
      qed
      ultimately show ?thesis by auto
    qed
  qed
qed

lemma star_self: "s \<in> set (star f s)"
  by (subst star.simps) simp

lemma star_step: "u \<in> set (f s) \<Longrightarrow> length u < length s \<Longrightarrow> t \<in> set (star f u) \<Longrightarrow> t \<in> set (star f s)"
  by (subst star.simps) auto

lemma star_cases:
  "t \<in> set (star f s) \<Longrightarrow> t = s \<or> (\<exists>u \<in> set (f s). length u < length s \<and> t \<in> set (star f u))"
  by (subst (asm) star.simps) auto

lemma star_sound:
  assumes f: "\<And>s t. t \<in> set (f s) \<longleftrightarrow> (\<exists>p. p \<in> A \<and> s = p @ t)"
  shows "t \<in> set (star f s) \<Longrightarrow> \<exists>k p. p \<in> pow A k \<and> s = p @ t"
proof (induction "length s" arbitrary: s rule: less_induct)
  case less
  from star_cases [OF less.prems]
  show ?case
  proof
    assume "t = s"
    then have "[] \<in> pow A 0 \<and> s = [] @ t" by simp
    then show ?thesis by blast
  next
    assume "\<exists>u \<in> set (f s). length u < length s \<and> t \<in> set (star f u)"
    then obtain u where u: "u \<in> set (f s)" "length u < length s" "t \<in> set (star f u)" by blast
    from less.hyps [OF u(2) u(3)] obtain k p where kp: "p \<in> pow A k" "u = p @ t" by blast
    from u(1) obtain p1 where p1: "p1 \<in> A" "s = p1 @ u" using f by blast
    have "p1 @ p \<in> pow A (Suc k)" using p1 kp by (simp add: concI)
    moreover have "s = (p1 @ p) @ t" using p1 kp by simp
    ultimately show ?thesis by blast
  qed
qed

lemma star_complete:
  assumes f: "\<And>s t. t \<in> set (f s) \<longleftrightarrow> (\<exists>p. p \<in> A \<and> s = p @ t)"
  shows "p \<in> pow A k \<Longrightarrow> t \<in> set (star f (p @ t))"
proof (induction k arbitrary: p)
  case 0
  then show ?case by (simp add: star_self)
next
  case (Suc k)
  then obtain p1 p2 where p: "p = p1 @ p2" "p1 \<in> A" "p2 \<in> pow A k"
    by (auto simp: conc_iff)
  show ?case
  proof (cases "p1 = []")
    case True
    then show ?thesis using p Suc.IH by simp
  next
    case False
    have "p2 @ t \<in> set (f (p @ t))" using p f by auto
    moreover have "length (p2 @ t) < length (p @ t)" using False p by simp
    moreover have "t \<in> set (star f (p2 @ t))" using Suc.IH p by simp
    ultimately show ?thesis by (rule star_step)
  qed
qed

lemma star_correct:
  assumes f: "\<And>s t. t \<in> set (f s) \<longleftrightarrow> (\<exists>p. p \<in> A \<and> s = p @ t)"
  shows "t \<in> set (star f s) \<longleftrightarrow> (\<exists>k p. p \<in> pow A k \<and> s = p @ t)"
  using star_sound [OF f] star_complete [OF f] by blast

lemma rm_correct: "t \<in> set (rm r s) \<longleftrightarrow> (\<exists>p. p \<in> lang r \<and> s = p @ t)"
proof (induction r arbitrary: s t)
  case (Cls P)
  show ?case by (cases s) auto
next
  case (Seq a b)
  show ?case
  proof
    assume "t \<in> set (rm (Seq a b) s)"
    then obtain u where u: "u \<in> set (rm a s)" "t \<in> set (rm b u)" by auto
    then obtain p1 p2 where "p1 \<in> lang a" "s = p1 @ u" "p2 \<in> lang b" "u = p2 @ t"
      using Seq.IH by blast
    then have "p1 @ p2 \<in> lang (Seq a b) \<and> s = (p1 @ p2) @ t" by (simp add: concI)
    then show "\<exists>p. p \<in> lang (Seq a b) \<and> s = p @ t" by blast
  next
    assume "\<exists>p. p \<in> lang (Seq a b) \<and> s = p @ t"
    then obtain p1 p2 where p: "p1 \<in> lang a" "p2 \<in> lang b" "s = (p1 @ p2) @ t"
      by (auto simp: conc_iff)
    have "p2 @ t \<in> set (rm a s)" using p Seq.IH(1) by auto
    moreover have "t \<in> set (rm b (p2 @ t))" using p Seq.IH(2) by auto
    ultimately show "t \<in> set (rm (Seq a b) s)" by auto
  qed
next
  case (Rep lo hi a)
  show ?case
    unfolding rm.simps lang.simps iter_correct [of "rm a" "lang a", OF Rep.IH]
      UN_iff Bex_def atLeastAtMost_iff
    by blast
next
  case (AtLeast n a)
  note it = iter_correct [of "rm a" "lang a", OF AtLeast.IH]
  note st = star_correct [of "rm a" "lang a", OF AtLeast.IH]
  show ?case
  proof
    assume "t \<in> set (rm (AtLeast n a) s)"
    then obtain u where u: "u \<in> set (iter (rm a) n n s)" "t \<in> set (star (rm a) u)" by auto
    from u(1) obtain k1 p1 where p1: "n \<le> k1" "k1 \<le> n" "p1 \<in> pow (lang a) k1" "s = p1 @ u"
      unfolding it by blast
    from u(2) obtain k p2 where p2: "p2 \<in> pow (lang a) k" "u = p2 @ t"
      unfolding st by blast
    have "k1 = n" using p1 by simp
    then have "p1 @ p2 \<in> pow (lang a) (n + k)" using p1 p2 by (simp add: pow_add concI)
    then have "p1 @ p2 \<in> lang (AtLeast n a)" by auto
    moreover have "s = (p1 @ p2) @ t" using p1 p2 by simp
    ultimately show "\<exists>p. p \<in> lang (AtLeast n a) \<and> s = p @ t" by blast
  next
    assume "\<exists>p. p \<in> lang (AtLeast n a) \<and> s = p @ t"
    then obtain p m where h: "n \<le> m" "p \<in> pow (lang a) m" "s = p @ t" by auto
    then obtain k where "m = n + k" using le_Suc_ex by blast
    then obtain p1 p2 where p: "p = p1 @ p2" "p1 \<in> pow (lang a) n" "p2 \<in> pow (lang a) k"
      using h by (auto simp: pow_add conc_iff)
    have "n \<le> n \<and> n \<le> n \<and> p1 \<in> pow (lang a) n \<and> s = p1 @ (p2 @ t)" using p h by simp
    then have "p2 @ t \<in> set (iter (rm a) n n s)" unfolding it by blast
    moreover have "t \<in> set (star (rm a) (p2 @ t))" unfolding st using p by blast
    ultimately show "t \<in> set (rm (AtLeast n a) s)" by auto
  qed
qed

lemma re_fullmatch_iff: "re_fullmatch p s \<longleftrightarrow> s \<in> lang p"
  by (auto simp: re_fullmatch_def list_ex_iff rm_correct)

lemma re_match_iff:
  "re_match p s \<longleftrightarrow> s \<in> lang p \<or> (\<exists>w. w \<in> lang p \<and> s = w @ [CHR 0x0A])"
  by (auto simp: re_match_def list_ex_iff rm_correct)

section \<open>Characters, strings and the languages of the patterns\<close>

lemma pow_Cls: "pow (lang (Cls P)) k = {w. length w = k \<and> list_all P w}"
proof (induction k)
  case 0
  show ?case by auto
next
  case (Suc k)
  show ?case
  proof (rule set_eqI, rule iffI)
    fix w
    assume "w \<in> pow (lang (Cls P)) (Suc k)"
    then obtain x y where "w = x @ y" "x \<in> lang (Cls P)" "y \<in> {w. length w = k \<and> list_all P w}"
      unfolding pow.simps Suc conc_iff by blast
    then show "w \<in> {w. length w = Suc k \<and> list_all P w}" by auto
  next
    fix w
    assume "w \<in> {w. length w = Suc k \<and> list_all P w}"
    then obtain a t where w: "w = a # t" and m: "P a" "length t = k" "list_all P t"
      by (cases w) auto
    have "[a] \<in> lang (Cls P)" "t \<in> pow (lang (Cls P)) k" using m Suc by auto
    then have "[a] @ t \<in> conc (lang (Cls P)) (pow (lang (Cls P)) k)" by (rule concI)
    then show "w \<in> pow (lang (Cls P)) (Suc k)" using w by simp
  qed
qed


lemma lang_Rep_Cls: "lang (Rep lo hi (Cls P)) = {w. lo \<le> length w \<and> length w \<le> hi \<and> list_all P w}"
  unfolding lang.simps(3) pow_Cls by auto


lemma lang_AtLeast_Cls: "lang (AtLeast n (Cls P)) = {w. n \<le> length w \<and> list_all P w}"
  unfolding lang.simps(4) pow_Cls by auto


lemma char_eq_code: "c = d \<longleftrightarrow> (of_char c :: nat) = of_char d"
  by simp


lemma of_char_lower:
  "(of_char (lower_char c) :: nat) = (if isupper c then of_char c + 32 else of_char c)"
  by (auto simp: lower_char_def isupper_def Let_def)



lemma conc_eps_right: "conc A {[]} = A"
  by (auto simp: conc_def)

lemma lang_Opt: "lang (Opt r) = insert [] (lang r)"
proof -
  have "{0..(1::nat)} = {0, 1}" by auto
  moreover have "pow (lang r) 1 = lang r" by (simp add: conc_eps_right)
  ultimately show ?thesis by (simp del: One_nat_def)
qed

lemma lower_char_eq_iff:
  "lower_char c = d \<longleftrightarrow> (of_char d :: nat) = (if isupper c then of_char c + 32 else of_char c)"
  unfolding of_char_lower [symmetric] by auto

lemma not_isupper_lower: "\<not> isupper (lower_char c)"
  unfolding isupper_def [of "lower_char c"] of_char_lower
  by (auto simp: isupper_def Let_def)

lemma lower_char_fix: "\<not> isupper c \<Longrightarrow> lower_char c = c"
  by (simp add: lower_char_def)

lemma lower_char_idem: "lower_char (lower_char c) = lower_char c"
  by (rule lower_char_fix) (rule not_isupper_lower)

lemma lower_idem: "lower (lower s) = lower s"
  by (simp add: lower_def lower_char_idem)

lemma isspace_lower_char: "isspace (lower_char c) = isspace c"
  unfolding isspace_def [of "lower_char c"] of_char_lower
  by (auto simp: isspace_def isupper_def Let_def)

lemma lower_char_slash: "lower_char c = CHR ''/'' \<longleftrightarrow> c = CHR ''/''"
  unfolding lower_char_eq_iff char_eq_code [of c] by (auto simp: isupper_def Let_def simp del: of_char_eq_iff)

lemma lower_char_dot: "lower_char c = CHR ''.'' \<longleftrightarrow> c = CHR ''.''"
  unfolding lower_char_eq_iff char_eq_code [of c] by (auto simp: isupper_def Let_def simp del: of_char_eq_iff)

lemma alnum_hyphen_plain: "alnum_hyphen c \<Longrightarrow> \<not> isupper c \<and> \<not> isspace c \<and> c \<noteq> CHR ''.''
    \<and> c \<noteq> CHR '':'' \<and> c \<noteq> CHR ''/'' \<and> c \<noteq> CHR 0x0A"
  unfolding alnum_hyphen_def alnum_def az_def digit_def isupper_def isspace_def Let_def
    char_eq_code [of c]
  by (auto simp del: of_char_eq_iff)

lemma email_local_plain: "email_local_char c \<Longrightarrow> \<not> isupper c \<and> \<not> isspace c \<and> c \<noteq> CHR ''@''"
  unfolding email_local_char_def alnum_def az_def digit_def isupper_def isspace_def Let_def
    char_eq_code [of c]
  by (auto simp del: of_char_eq_iff)

lemma email_host_plain: "email_host_char c \<Longrightarrow> \<not> isupper c \<and> \<not> isspace c \<and> c \<noteq> CHR ''@''"
  unfolding email_host_char_def alnum_def az_def digit_def isupper_def isspace_def Let_def
    char_eq_code [of c]
  by (auto simp del: of_char_eq_iff)

lemma az_plain: "az c \<Longrightarrow> \<not> isupper c \<and> \<not> isspace c \<and> c \<noteq> CHR ''@'' \<and> c \<noteq> CHR ''.'' \<and> c \<noteq> CHR 0x0A"
  unfolding az_def isupper_def isspace_def Let_def char_eq_code [of c]
  by (auto simp del: of_char_eq_iff)

lemma last_dropWhile: "dropWhile P xs \<noteq> [] \<Longrightarrow> last (dropWhile P xs) = last xs"
  by (induction xs) (auto split: if_splits)

lemma strip_id: "s \<noteq> [] \<Longrightarrow> \<not> isspace (hd s) \<Longrightarrow> \<not> isspace (last s) \<Longrightarrow> strip s = s"
proof -
  assume a: "s \<noteq> []" "\<not> isspace (hd s)" "\<not> isspace (last s)"
  have 1: "dropWhile isspace s = s" using a by (cases s) auto
  have "rev s \<noteq> []" "\<not> isspace (hd (rev s))" using a by (auto simp: hd_rev)
  then have "dropWhile isspace (rev s) = rev s" by (cases "rev s") auto
  then show ?thesis using 1 by (simp add: strip_def)
qed

lemma strip_ends: "strip s \<noteq> [] \<Longrightarrow> \<not> isspace (hd (strip s)) \<and> \<not> isspace (last (strip s))"
proof -
  assume n: "strip s \<noteq> []"
  define t where "t = dropWhile isspace s"
  define u where "u = dropWhile isspace (rev t)"
  have s: "strip s = rev u" by (simp add: strip_def t_def u_def)
  have u: "u \<noteq> []" using n s by simp
  then have t: "t \<noteq> []" by (auto simp: u_def)
  have "\<not> isspace (hd u)" using u unfolding u_def by (rule hd_dropWhile)
  then have l: "\<not> isspace (last (strip s))" using s u by (simp add: last_rev)
  have "last u = last (rev t)" using u unfolding u_def by (rule last_dropWhile)
  then have "hd (strip s) = hd t" using s u t by (simp add: hd_rev last_rev)
  moreover have "\<not> isspace (hd t)" using t unfolding t_def by (rule hd_dropWhile)
  ultimately show ?thesis using l by simp
qed

lemma strip_idem: "strip (strip s) = strip s"
proof (cases "strip s = []")
  case True
  have "strip [] = []" by (simp add: strip_def)
  then show ?thesis using True by simp
next
  case False
  from strip_ends [OF False] have "\<not> isspace (hd (strip s))" "\<not> isspace (last (strip s))"
    by simp_all
  with False show ?thesis by (rule strip_id)
qed

lemma rstrip_char_id: "s = [] \<or> last s \<noteq> c \<Longrightarrow> rstrip_char c s = s"
  by (cases s rule: rev_cases) (simp_all add: rstrip_char_def)

lemma rstrip_char_last: "rstrip_char c s \<noteq> [] \<Longrightarrow> last (rstrip_char c s) \<noteq> c"
proof -
  assume n: "rstrip_char c s \<noteq> []"
  then have d: "dropWhile (\<lambda>x. x = c) (rev s) \<noteq> []" by (simp add: rstrip_char_def)
  from hd_dropWhile [OF d] show ?thesis
    using d by (simp add: rstrip_char_def last_rev)
qed

lemma rstrip_char_prefix: "\<exists>k. s = rstrip_char c s @ replicate k c"
proof -
  have "\<exists>k. xs = replicate k c @ dropWhile (\<lambda>x. x = c) xs" for xs
  proof (induction xs)
    case Nil
    show ?case by simp
  next
    case (Cons x xs)
    show ?case
    proof (cases "x = c")
      case True
      from Cons obtain k where "xs = replicate k c @ dropWhile (\<lambda>x. x = c) xs" by blast
      then have "x # xs = replicate (Suc k) c @ dropWhile (\<lambda>x. x = c) (x # xs)"
        using True by simp
      then show ?thesis by blast
    next
      case False
      then have "x # xs = replicate 0 c @ dropWhile (\<lambda>x. x = c) (x # xs)" by simp
      then show ?thesis by blast
    qed
  qed
  then obtain k where "rev s = replicate k c @ dropWhile (\<lambda>x. x = c) (rev s)" by blast
  then have "rev (rev s) = rev (replicate k c @ dropWhile (\<lambda>x. x = c) (rev s))" by simp
  then have "s = rstrip_char c s @ replicate k c" by (simp add: rstrip_char_def)
  then show ?thesis by blast
qed

lemma split_char_ne: "split_char c s \<noteq> []"
  by (induction s) (auto split: list.splits)

lemma split_char_nosep: "c \<notin> set s \<Longrightarrow> split_char c s = [s]"
  by (induction s) auto

lemma split_char_app: "c \<notin> set l \<Longrightarrow> split_char c (l @ c # r) = l # split_char c r"
  by (induction l) auto

lemma split_char_decomp:
  "split_char c s = l # rest \<Longrightarrow>
     c \<notin> set l \<and> ((rest = [] \<and> s = l) \<or> (\<exists>r. s = l @ c # r \<and> split_char c r = rest))"
proof (induction s arbitrary: l rest)
  case Nil
  then show ?case by simp
next
  case (Cons x xs)
  show ?case
  proof (cases "x = c")
    case True
    then show ?thesis using Cons.prems by auto
  next
    case False
    obtain w ws where w: "split_char c xs = w # ws"
      using split_char_ne [of c xs] by (cases "split_char c xs") auto
    then have l: "l = x # w" "rest = ws" using Cons.prems False by auto
    from Cons.IH [OF w] show ?thesis using l False by auto
  qed
qed

lemma hd_split_char: "index (split_char c s) 0 = Inr (takeWhile (\<lambda>x. x \<noteq> c) s)"
proof -
  have "hd (split_char c s) = takeWhile (\<lambda>x. x \<noteq> c) s"
    using split_char_ne [of c] by (induction s) (auto split: list.splits)
  then show ?thesis using split_char_ne [of c s]
    by (cases "split_char c s") (auto simp: index_def)
qed

lemma lang_label: "l \<in> lang label_re \<longleftrightarrow> label_ok l"
proof
  assume "l \<in> lang label_re"
  then obtain x y where l: "l = x @ y" and x: "x \<in> lang (Cls alnum)"
    and y: "y \<in> lang (Opt (Seq (Rep 0 61 (Cls alnum_hyphen)) (Cls alnum)))"
    unfolding label_re_def lang.simps(2) conc_iff by blast
  from x obtain c where c: "x = [c]" "alnum c" by auto
  from y have "y = [] \<or> y \<in> conc (lang (Rep 0 61 (Cls alnum_hyphen))) (lang (Cls alnum))"
    unfolding lang_Opt by simp
  then show "label_ok l"
  proof
    assume "y = []"
    then show ?thesis using l c by (auto simp: label_ok_def alnum_hyphen_def alnum_def az_def digit_def)
  next
    assume "y \<in> conc (lang (Rep 0 61 (Cls alnum_hyphen))) (lang (Cls alnum))"
    then obtain w z where y2: "y = w @ z" "w \<in> lang (Rep 0 61 (Cls alnum_hyphen))" "z \<in> lang (Cls alnum)"
      unfolding conc_iff by blast
    then obtain d where d: "z = [d]" "alnum d" by auto
    have w: "length w \<le> 61" "list_all alnum_hyphen w" using y2(2) unfolding lang_Rep_Cls by auto
    have "l = c # w @ [d]" using l c y2 d by simp
    moreover have "c \<noteq> CHR ''-''" "d \<noteq> CHR ''-''" using c d by (auto simp: alnum_def az_def digit_def)
    ultimately show ?thesis using c d w by (simp add: label_ok_def alnum_hyphen_def)
  qed
next
  assume ok: "label_ok l"
  then obtain c t where l: "l = c # t" by (cases l) (auto simp: label_ok_def)
  have c: "alnum c" using ok l by (auto simp: label_ok_def alnum_hyphen_def)
  then have x: "[c] \<in> lang (Cls alnum)" by simp
  have "t \<in> lang (Opt (Seq (Rep 0 61 (Cls alnum_hyphen)) (Cls alnum)))"
  proof (cases t rule: rev_cases)
    case Nil
    then show ?thesis unfolding lang_Opt by simp
  next
    case (snoc w d)
    have d: "alnum d" using ok l snoc by (auto simp: label_ok_def alnum_hyphen_def)
    have "length w \<le> 61" "list_all alnum_hyphen w" using ok l snoc by (auto simp: label_ok_def)
    then have "w \<in> lang (Rep 0 61 (Cls alnum_hyphen))" unfolding lang_Rep_Cls by simp
    moreover have "[d] \<in> lang (Cls alnum)" using d by simp
    ultimately have "w @ [d] \<in> conc (lang (Rep 0 61 (Cls alnum_hyphen))) (lang (Cls alnum))"
      by (rule concI)
    then show ?thesis unfolding lang_Opt using snoc by simp
  qed
  with x have "[c] @ t \<in> conc (lang (Cls alnum)) (lang (Opt (Seq (Rep 0 61 (Cls alnum_hyphen)) (Cls alnum))))"
    by (rule concI)
  then show "l \<in> lang label_re" using l by (simp add: label_re_def)
qed

lemma label_ok_nodot: "label_ok l \<Longrightarrow> CHR ''.'' \<notin> set l"
  using alnum_hyphen_plain by (auto simp: label_ok_def list_all_iff)

lemma labels_step:
  "s \<in> conc (lang label_re) (pow (lang (Seq (Cls (lit CHR ''.'')) label_re)) k) \<longleftrightarrow>
     length (split_char CHR ''.'' s) = Suc k \<and> list_all label_ok (split_char CHR ''.'' s)"
proof (induction k arbitrary: s)
  case 0
  show ?case
  proof
    assume "s \<in> conc (lang label_re) (pow (lang (Seq (Cls (lit CHR ''.'')) label_re)) 0)"
    then have "label_ok s" by (simp add: conc_eps_right lang_label)
    then show "length (split_char CHR ''.'' s) = Suc 0 \<and> list_all label_ok (split_char CHR ''.'' s)"
      using split_char_nosep [OF label_ok_nodot] by simp
  next
    assume a: "length (split_char CHR ''.'' s) = Suc 0 \<and> list_all label_ok (split_char CHR ''.'' s)"
    then obtain l where l: "split_char CHR ''.'' s = [l]" by (cases "split_char CHR ''.'' s") auto
    from split_char_decomp [OF l] split_char_ne [of "CHR ''.''"] have "s = l" by auto
    then have "label_ok s" using a l by simp
    then show "s \<in> conc (lang label_re) (pow (lang (Seq (Cls (lit CHR ''.'')) label_re)) 0)"
      by (simp add: conc_eps_right lang_label)
  qed
next
  case (Suc k)
  let ?D = "lang (Seq (Cls (lit CHR ''.'')) label_re)"
  have assoc: "conc (lang label_re) (pow ?D (Suc k)) =
               conc (lang label_re) (conc (lang (Cls (lit CHR ''.''))) (conc (lang label_re) (pow ?D k)))"
    by (simp add: conc_assoc)
  show ?case
  proof
    assume "s \<in> conc (lang label_re) (pow ?D (Suc k))"
    then obtain l d r where s: "s = l @ d @ r" and l: "l \<in> lang label_re"
      and d: "d \<in> lang (Cls (lit CHR ''.''))" and r: "r \<in> conc (lang label_re) (pow ?D k)"
      unfolding assoc conc_iff by blast
    have s2: "s = l @ CHR ''.'' # r" using s d by (auto simp: lit_def)
    have lok: "label_ok l" using l by (simp add: lang_label)
    have "split_char CHR ''.'' s = l # split_char CHR ''.'' r"
      unfolding s2 using label_ok_nodot [OF lok] by (rule split_char_app)
    then show "length (split_char CHR ''.'' s) = Suc (Suc k) \<and> list_all label_ok (split_char CHR ''.'' s)"
      using lok r Suc.IH by simp
  next
    assume a: "length (split_char CHR ''.'' s) = Suc (Suc k) \<and> list_all label_ok (split_char CHR ''.'' s)"
    then obtain l rest where sp: "split_char CHR ''.'' s = l # rest" and rest: "length rest = Suc k"
      by (cases "split_char CHR ''.'' s") auto
    from split_char_decomp [OF sp] rest obtain r where r: "s = l @ CHR ''.'' # r" "split_char CHR ''.'' r = rest"
      by auto
    have rk: "r \<in> conc (lang label_re) (pow ?D k)" using Suc.IH r rest a sp by simp
    have dot: "[CHR ''.''] \<in> lang (Cls (lit CHR ''.''))" by (simp add: lit_def)
    from dot rk have dr: "[CHR ''.''] @ r \<in> conc (lang (Cls (lit CHR ''.''))) (conc (lang label_re) (pow ?D k))"
      by (rule concI)
    have ll: "l \<in> lang label_re" using a sp by (simp add: lang_label)
    from ll dr have "l @ ([CHR ''.''] @ r) \<in> conc (lang label_re) (pow ?D (Suc k))"
      unfolding assoc by (rule concI)
    then show "s \<in> conc (lang label_re) (pow ?D (Suc k))" using r by simp
  qed
qed

lemma lang_domain: "s \<in> lang domain_re \<longleftrightarrow> dns_labels s"
proof -
  let ?D = "lang (Seq (Cls (lit CHR ''.'')) label_re)"
  have "s \<in> lang domain_re \<longleftrightarrow> (\<exists>k. s \<in> conc (lang label_re) (pow ?D k))"
    by (auto simp: domain_re_def conc_iff)
  also have "\<dots> \<longleftrightarrow> (\<exists>k. length (split_char CHR ''.'' s) = Suc k \<and> list_all label_ok (split_char CHR ''.'' s))"
    unfolding labels_step ..
  also have "\<dots> \<longleftrightarrow> dns_labels s"
    using split_char_ne [of "CHR ''.''" s]
    by (cases "split_char CHR ''.'' s") (auto simp: dns_labels_def)
  finally show ?thesis .
qed

lemma lang_email:
  "s \<in> lang email_pattern \<longleftrightarrow>
     (\<exists>l h t. s = l @ ''@'' @ h @ ''.'' @ t
        \<and> l \<noteq> [] \<and> list_all email_local_char l
        \<and> h \<noteq> [] \<and> list_all email_host_char h
        \<and> 2 \<le> length t \<and> list_all az t)"
proof -
  have 1: "(1 \<le> length w) = (w \<noteq> [])" for w :: string by (cases w) auto
  show ?thesis
    unfolding email_pattern_def lang.simps(2) lang_AtLeast_Cls conc_iff
    by (simp add: lit_def 1 del: One_nat_def) blast
qed

section \<open>The normalizers in closed form\<close>

lemma re_sub_www: "re_sub_prefix www_re x = strip_www x"
proof -
  have w: "lower_char c = CHR ''w'' \<Longrightarrow> lit_ignorecase CHR ''w'' c" for c
    by (simp add: lit_ignorecase_def)
  show ?thesis
  proof (cases x)
    case Nil
    then show ?thesis by (simp add: re_sub_prefix_def www_re_def strip_www_def startswith_def lower_def)
  next
    case (Cons a x1)
    show ?thesis
    proof (cases x1)
      case Nil
      then show ?thesis using Cons
        by (simp add: re_sub_prefix_def www_re_def strip_www_def startswith_def lower_def)
    next
      case (Cons b x2)
      note c2 = this
      show ?thesis
      proof (cases x2)
        case Nil
        then show ?thesis using \<open>x = a # x1\<close> c2
          by (simp add: re_sub_prefix_def www_re_def strip_www_def startswith_def lower_def)
      next
        case (Cons c x3)
        note c3 = this
        show ?thesis
        proof (cases x3)
          case Nil
          then show ?thesis using \<open>x = a # x1\<close> c2 c3
            by (simp add: re_sub_prefix_def www_re_def strip_www_def startswith_def lower_def)
        next
          case (Cons d x4)
          then show ?thesis using \<open>x = a # x1\<close> c2 c3
            by (simp add: re_sub_prefix_def www_re_def strip_www_def startswith_def lower_def
                lit_def lit_ignorecase_def lower_char_dot)
        qed
      qed
    qed
  qed
qed

lemma re_match_stripped: "t = [] \<or> \<not> isspace (last t) \<Longrightarrow> re_match p t \<longleftrightarrow> t \<in> lang p"
proof -
  assume a: "t = [] \<or> \<not> isspace (last t)"
  have "isspace (CHR 0x0A)" by (simp add: isspace_def)
  then have "t \<noteq> w @ [CHR 0x0A]" for w using a by auto
  then show ?thesis unfolding re_match_iff by blast
qed

lemma strip_last: "strip s = [] \<or> \<not> isspace (last (strip s))"
  using strip_ends by blast

lemma lower_last: "x = [] \<or> \<not> isspace (last x) \<Longrightarrow> lower x = [] \<or> \<not> isspace (last (lower x))"
  by (cases x rule: rev_cases) (auto simp: lower_def isspace_lower_char)

lemma lower_dot: "CHR ''.'' \<in> set (lower x) \<longleftrightarrow> CHR ''.'' \<in> set x"
proof -
  have "CHR ''.'' \<in> lower_char ` set x \<longleftrightarrow> CHR ''.'' \<in> set x"
  proof
    assume "CHR ''.'' \<in> lower_char ` set x"
    then obtain c where "c \<in> set x" "lower_char c = CHR ''.''" by auto
    then show "CHR ''.'' \<in> set x" by (simp add: lower_char_dot)
  next
    assume "CHR ''.'' \<in> set x"
    moreover have "lower_char CHR ''.'' = CHR ''.''" by (simp add: lower_char_dot)
    ultimately show "CHR ''.'' \<in> lower_char ` set x" by (metis imageI)
  qed
  then show ?thesis by (simp add: lower_def)
qed

lemma strip_set: "\<not> isspace c \<Longrightarrow> c \<in> set (strip x) \<longleftrightarrow> c \<in> set x"
proof -
  assume c: "\<not> isspace c"
  have 1: "c \<in> set (dropWhile isspace y) \<longleftrightarrow> c \<in> set y" for y
  proof
    assume "c \<in> set (dropWhile isspace y)"
    then show "c \<in> set y" by (rule set_dropWhileD)
  next
    assume "c \<in> set y"
    then show "c \<in> set (dropWhile isspace y)" using c by (induction y) auto
  qed
  show ?thesis unfolding strip_def set_rev 1 ..
qed

lemma index_split0:
  "(if c \<in> set d then index (split_char c d) 0 else Inr d) = Inr (takeWhile (\<lambda>x. x \<noteq> c) d)"
proof (cases "c \<in> set d")
  case True
  then show ?thesis by (simp add: hd_split_char)
next
  case False
  then have "takeWhile (\<lambda>x. x \<noteq> c) d = d" by (induction d) auto
  then show ?thesis using False by (simp del: takeWhile_eq_all_conv)
qed
lemma dot_strip: "CHR ''.'' \<in> set (strip x) \<longleftrightarrow> CHR ''.'' \<in> set x"
  by (rule strip_set) (simp add: isspace_def)

lemma normalize_domain_str:
  "normalize_domain (PyStr s) =
     Inr (case host_part (strip s) of
            None \<Rightarrow> None
          | Some a \<Rightarrow>
              let d = strip (lower (rstrip_char CHR ''.'' (strip_www
                        (takeWhile (\<lambda>c. c \<noteq> CHR ''/'') (takeWhile (\<lambda>c. c \<noteq> CHR '':'') a)))))
              in if strip s \<noteq> [] \<and> CHR ''.'' \<in> set d \<and> dns_labels d then Some d else None)"
proof (cases "s = [] \<or> strip s = []")
  case True
  have "strip [] = []" by (simp add: strip_def)
  then have e: "strip s = []" using True by auto
  have "normalize_domain (PyStr s) = Inr None"
    using e by (simp add: normalize_domain_def Let_def)
  then show ?thesis using e by (simp add: Let_def split: option.split)
next
  case False
  then show ?thesis
    unfolding normalize_domain_def index_split0 re_sub_www host_part_def
    by (simp add: Let_def re_match_stripped [OF strip_last] lang_domain dot_strip lower_dot
        split: sum.splits)
qed

lemma normalize_linkedin_str:
  "normalize_linkedin_url (PyStr s) =
     Inr (case link_part (strip s) of
            None \<Rightarrow> None
          | Some a \<Rightarrow>
              if strip s \<noteq> [] \<and> startswith (lower (strip_www a)) ''linkedin.com''
              then Some (lower (rstrip_char CHR ''/'' (strip_www a))) else None)"
proof (cases "s = [] \<or> strip s = []")
  case True
  have "strip [] = []" by (simp add: strip_def)
  then have e: "strip s = []" using True by auto
  have "normalize_linkedin_url (PyStr s) = Inr None"
    using e by (simp add: normalize_linkedin_url_def Let_def)
  then show ?thesis using e by (simp split: option.split)
next
  case False
  then show ?thesis
    unfolding normalize_linkedin_url_def re_sub_www link_part_def
    by (simp add: Let_def split: sum.splits)
qed

lemma normalize_email_str:
  "normalize_email (PyStr s) =
     Inr (if lower (strip s) \<in> lang email_pattern then Some (lower (strip s)) else None)"
proof (cases "s = [] \<or> strip s = []")
  case True
  have "strip [] = []" by (simp add: strip_def)
  then have e: "strip s = []" using True by auto
  have "[] \<notin> lang email_pattern" by (simp add: lang_email)
  then show ?thesis using e by (simp add: normalize_email_def Let_def lower_def)
next
  case False
  then show ?thesis
    unfolding normalize_email_def
    by (simp add: Let_def re_match_stripped [OF lower_last [OF strip_last]])
qed

lemma normalize_place_id_str:
  "normalize_place_id (PyStr s) = Inr (if strip s = [] then None else Some (strip s))"
proof -
  have "strip [] = []" by (simp add: strip_def)
  then show ?thesis by (auto simp: normalize_place_id_def Let_def)
qed

lemma normalize_google_id_str:
  "normalize_google_id (PyStr s) = Inr (if strip s = [] then None else Some (strip s))"
proof -
  have "strip [] = []" by (simp add: strip_def)
  then show ?thesis by (auto simp: normalize_google_id_def Let_def)
qed
lemma split_char_set: "x \<in> set s \<Longrightarrow> x = c \<or> (\<exists>l \<in> set (split_char c s). x \<in> set l)"
proof (induction s)
  case Nil
  then show ?case by simp
next
  case (Cons y ys)
  obtain w ws where w: "split_char c ys = w # ws"
    using split_char_ne [of c ys] by (cases "split_char c ys") auto
  show ?case
  proof (cases "x = y")
    case True
    then show ?thesis using w by auto
  next
    case False
    then have "x \<in> set ys" using Cons.prems by simp
    from Cons.IH [OF this] show ?thesis using w by auto
  qed
qed

lemma split_char_snoc: "split_char c (s @ [c]) = split_char c s @ [[]]"
proof (induction s)
  case Nil
  show ?case by simp
next
  case (Cons y ys)
  obtain w ws where w: "split_char c ys = w # ws"
    using split_char_ne [of c ys] by (cases "split_char c ys") auto
  show ?case using Cons w by simp
qed

lemma split_char_len2: "c \<in> set s \<Longrightarrow> 2 \<le> length (split_char c s)"
proof (induction s)
  case Nil
  then show ?case by simp
next
  case (Cons y ys)
  obtain w ws where w: "split_char c ys = w # ws"
    using split_char_ne [of c ys] by (cases "split_char c ys") auto
  show ?case
  proof (cases "y = c")
    case True
    then show ?thesis using w by simp
  next
    case False
    then have "c \<in> set ys" using Cons.prems by simp
    from Cons.IH [OF this] show ?thesis using w False by simp
  qed
qed

lemma dns_labels_chars:
  assumes "dns_labels d"
  shows "d \<noteq> []" and "last d \<noteq> CHR ''.''" and "\<And>c. c \<in> set d \<Longrightarrow> alnum_hyphen c \<or> c = CHR ''.''"
proof -
  have nl: "\<not> label_ok []" by (simp add: label_ok_def)
  show ne: "d \<noteq> []" using assms nl by (auto simp: dns_labels_def)
  show "last d \<noteq> CHR ''.''"
  proof
    assume "last d = CHR ''.''"
    then obtain d' where "d = d' @ [CHR ''.'']" using ne by (cases d rule: rev_cases) auto
    then have "label_ok []" using assms by (simp add: dns_labels_def split_char_snoc)
    then show False using nl by simp
  qed
  fix c assume "c \<in> set d"
  from split_char_set [OF this, of "CHR ''.''"]
  show "alnum_hyphen c \<or> c = CHR ''.''"
    using assms by (auto simp: dns_labels_def label_ok_def list_all_iff)
qed

lemma contains_hd: "contains (c # p) s \<Longrightarrow> c \<in> set s"
  by (induction s) (auto simp: startswith_def)

lemma lower_plain: "(\<And>c. c \<in> set s \<Longrightarrow> \<not> isupper c) \<Longrightarrow> lower s = s"
  by (simp add: lower_def lower_char_fix map_idI)

lemma strip_plain: "s \<noteq> [] \<Longrightarrow> (\<And>c. c \<in> set s \<Longrightarrow> \<not> isspace c) \<Longrightarrow> strip s = s"
  by (rule strip_id) simp_all

lemma dot_plain: "\<not> isupper CHR ''.'' \<and> \<not> isspace CHR ''.'' \<and> CHR ''.'' \<noteq> CHR '':'' \<and> CHR ''.'' \<noteq> CHR ''/''"
  by (simp add: isupper_def isspace_def)

lemma domain_idem:
  assumes n: "normalize_domain (PyStr s) = Inr (Some d)" and w: "\<not> startswith d ''www.''"
  shows "normalize_domain (PyStr d) = Inr (Some d)"
proof -
  from n have dl: "dns_labels d" and dot: "CHR ''.'' \<in> set d"
    by (auto simp: normalize_domain_str Let_def split: option.splits if_splits)
  note ch = dns_labels_chars [OF dl]
  have plain: "\<not> isupper c \<and> \<not> isspace c \<and> c \<noteq> CHR '':'' \<and> c \<noteq> CHR ''/''" if "c \<in> set d" for c
    using ch(3) [OF that] alnum_hyphen_plain [of c] dot_plain by auto
  have lo: "lower d = d" using plain by (intro lower_plain) simp
  have st: "strip d = d" using ch(1) plain by (intro strip_plain) simp_all
  have "\<not> contains ''://'' d" using contains_hd [of "CHR '':''" "''//''" d] plain by auto
  then have hp: "host_part d = Some d" by (simp add: host_part_def)
  have t1: "takeWhile (\<lambda>c. c \<noteq> CHR '':'') d = d" using plain by (simp add: takeWhile_eq_all_conv)
  have t2: "takeWhile (\<lambda>c. c \<noteq> CHR ''/'') d = d" using plain by (simp add: takeWhile_eq_all_conv)
  have sw: "strip_www d = d" using w lo by (simp add: strip_www_def)
  have rs: "rstrip_char CHR ''.'' d = d" using ch(2) by (intro rstrip_char_id) simp
  show ?thesis
    unfolding normalize_domain_str st hp
    by (simp add: Let_def t1 t2 sw rs lo st ch(1) dl dot del: takeWhile_eq_all_conv)
qed

lemma email_idem:
  assumes n: "normalize_email (PyStr s) = Inr (Some e)"
  shows "normalize_email (PyStr e) = Inr (Some e)"
proof -
  from n have el: "e \<in> lang email_pattern"
    by (auto simp: normalize_email_str split: if_splits)
  then obtain l h t where e: "e = l @ ''@'' @ h @ ''.'' @ t"
    and c: "list_all email_local_char l" "list_all email_host_char h" "list_all az t"
    unfolding lang_email by blast
  have plain: "\<not> isupper x \<and> \<not> isspace x" if "x \<in> set e" for x
    using that c e email_local_plain [of x] email_host_plain [of x] az_plain [of x]
    by (auto simp: list_all_iff isupper_def isspace_def)
  have ne: "e \<noteq> []" using e by simp
  have lo: "lower e = e" using plain by (intro lower_plain) simp
  have st: "strip e = e" using ne plain by (intro strip_plain) simp_all
  show ?thesis unfolding normalize_email_str st lo using el by simp
qed

lemma take_app_replicate:
  assumes "take n (l @ replicate k c) = p" "length p = n" "c \<notin> set p"
  shows "take n l = p"
proof (cases "n \<le> length l")
  case True
  then show ?thesis using assms by simp
next
  case False
  then have "p = l @ replicate (min k (n - length l)) c" using assms by (auto simp: min.commute)
  moreover have "min k (n - length l) \<noteq> 0" using assms(2) False calculation
    by (cases "min k (n - length l)") auto
  ultimately have "c \<in> set p" by (cases "min k (n - length l)") auto
  then show ?thesis using assms by simp
qed

lemma linkedin_idem:
  assumes n: "normalize_linkedin_url (PyStr s) = Inr (Some l)"
    and nc: "\<not> contains ''://'' l" and ns: "\<not> isspace (last l)"
  shows "normalize_linkedin_url (PyStr l) = Inr (Some l)"
proof -
  from n obtain a where a: "startswith (lower (strip_www a)) ''linkedin.com''"
    and l: "l = lower (rstrip_char CHR ''/'' (strip_www a))"
    by (auto simp: normalize_linkedin_str split: option.splits if_splits)
  define x where "x = strip_www a"
  define y where "y = rstrip_char CHR ''/'' x"
  obtain k where k: "x = y @ replicate k CHR ''/''"
    using rstrip_char_prefix [of x "CHR ''/''"] y_def by blast
  have lc: "lower_char CHR ''/'' = CHR ''/''" by (simp add: lower_char_slash)
  have "lower x = l @ replicate k CHR ''/''"
    unfolding l x_def [symmetric] y_def [symmetric] by (subst k) (simp add: lower_def lc)
  moreover have "take (length ''linkedin.com'') (lower x) = ''linkedin.com''"
    using a unfolding startswith_def x_def .
  ultimately have "take (length ''linkedin.com'') (l @ replicate k CHR ''/'') = ''linkedin.com''"
    by (simp only:)
  then have pre: "take (length ''linkedin.com'') l = ''linkedin.com''"
    by (rule take_app_replicate) simp_all
  then obtain r where r: "l = ''linkedin.com'' @ r"
    by (metis append_take_drop_id)
  have ne: "l \<noteq> []" using r by simp
  have hd: "\<not> isspace (hd l)" using r by (simp add: isspace_def)
  have st: "strip l = l" using ne hd ns by (rule strip_id)
  have lo: "lower l = l" unfolding l by (rule lower_idem)
  have lp: "link_part l = Some l" using nc by (simp add: link_part_def)
  have nw: "\<not> startswith l ''www.''" using r by (simp add: startswith_def)
  have sw: "strip_www l = l" unfolding strip_www_def lo using nw by simp
  have "y = [] \<or> last y \<noteq> CHR ''/''" using rstrip_char_last [of "CHR ''/''" x] y_def by blast
  moreover have "l = lower y" by (simp add: l x_def y_def)
  ultimately have "last l \<noteq> CHR ''/''" using ne
    by (cases y rule: rev_cases) (auto simp: lower_def lower_char_slash)
  then have rs: "rstrip_char CHR ''/'' l = l" by (intro rstrip_char_id) simp
  show ?thesis
    unfolding normalize_linkedin_str st lp
    using pre by (simp add: sw lo rs ne startswith_def)
qed

lemma place_idem: "normalize_place_id (PyStr s) = Inr (Some p) \<Longrightarrow> normalize_place_id (PyStr p) = Inr (Some p)"
  by (auto simp: normalize_place_id_str strip_idem split: if_splits)

lemma google_idem: "normalize_google_id (PyStr s) = Inr (Some p) \<Longrightarrow> normalize_google_id (PyStr p) = Inr (Some p)"
  by (auto simp: normalize_google_id_str strip_idem split: if_splits)

section \<open>The normalizers: totality and accepted shapes\<close>

lemmas spec_ev = label_ok_def dns_labels_def strip_www_def host_label_def spec_email_shape_def
  spec_host_def spec_normalize_domain_def

lemma extract_total: "\<exists>r. extract_domain_from_email v = Inr r"
proof (cases "normalize_email v")
  case (Inl e)
  then show ?thesis by (cases v) (auto simp: normalize_email_def Let_def split: if_splits)
next
  case (Inr r)
  show ?thesis
  proof (cases r)
    case None
    then show ?thesis using Inr by (simp add: extract_domain_from_email_def)
  next
    case (Some e)
    obtain s where v: "v = PyStr s"
      using Inr Some by (cases v) (auto simp: normalize_email_def)
    have "e \<in> lang email_pattern"
      using Inr Some v by (auto simp: normalize_email_str split: if_splits)
    then have "CHR ''@'' \<in> set e" unfolding lang_email by auto
    then have "1 < length (split_char CHR ''@'' e)" using split_char_len2 [of "CHR ''@''" e] by simp
    then show ?thesis using Inr Some
      by (simp add: extract_domain_from_email_def index_def del: One_nat_def)
  qed
qed

text \<open>
  C7: every normalizer is total and never raises. For every Python value it returns
  a canonical string or \<open>None\<close>: the exception of \<open>urlparse\<close> is caught, and no index is
  out of range. \<open>None\<close>, a value that is not a string, and the empty string are rejected
  with \<open>None\<close>.
\<close>

theorem normalizers_total:
  "(\<exists>r. normalize_domain v = Inr r) \<and> (\<exists>r. normalize_linkedin_url v = Inr r)
   \<and> (\<exists>r. normalize_email v = Inr r) \<and> (\<exists>r. normalize_place_id v = Inr r)
   \<and> (\<exists>r. normalize_google_id v = Inr r) \<and> (\<exists>r. extract_domain_from_url v = Inr r)
   \<and> (\<exists>r. extract_domain_from_email v = Inr r)
   \<and> normalize_domain PyNone = Inr None \<and> normalize_linkedin_url PyNone = Inr None
   \<and> normalize_email PyNone = Inr None \<and> normalize_place_id PyNone = Inr None
   \<and> normalize_google_id PyNone = Inr None \<and> extract_domain_from_email PyNone = Inr None
   \<and> normalize_domain (PyObj b) = Inr None \<and> normalize_linkedin_url (PyObj b) = Inr None
   \<and> normalize_email (PyObj b) = Inr None \<and> normalize_place_id (PyObj b) = Inr None
   \<and> normalize_google_id (PyObj b) = Inr None \<and> extract_domain_from_email (PyObj b) = Inr None
   \<and> normalize_domain (PyStr []) = Inr None \<and> normalize_linkedin_url (PyStr []) = Inr None
   \<and> normalize_email (PyStr []) = Inr None \<and> normalize_place_id (PyStr []) = Inr None
   \<and> normalize_google_id (PyStr []) = Inr None \<and> extract_domain_from_email (PyStr []) = Inr None"
proof -
  have 1: "\<exists>r. normalize_domain v = Inr r"
    by (cases v) (simp_all add: normalize_domain_str, simp_all add: normalize_domain_def)
  have 2: "\<exists>r. normalize_linkedin_url v = Inr r"
    by (cases v) (simp_all add: normalize_linkedin_str, simp_all add: normalize_linkedin_url_def)
  have 3: "\<exists>r. normalize_email v = Inr r"
    by (cases v) (simp_all add: normalize_email_str, simp_all add: normalize_email_def)
  have 4: "\<exists>r. normalize_place_id v = Inr r"
    by (cases v) (simp_all add: normalize_place_id_str, simp_all add: normalize_place_id_def)
  have 5: "\<exists>r. normalize_google_id v = Inr r"
    by (cases v) (simp_all add: normalize_google_id_str, simp_all add: normalize_google_id_def)
  have 6: "\<exists>r. extract_domain_from_url v = Inr r"
    using 1 by (simp add: extract_domain_from_url_def)
  have 7: "normalize_domain PyNone = Inr None \<and> normalize_linkedin_url PyNone = Inr None
   \<and> normalize_email PyNone = Inr None \<and> normalize_place_id PyNone = Inr None
   \<and> normalize_google_id PyNone = Inr None \<and> extract_domain_from_email PyNone = Inr None"
    by (simp add: normalize_domain_def normalize_linkedin_url_def normalize_email_def
        normalize_place_id_def normalize_google_id_def extract_domain_from_email_def)
  have 8: "normalize_domain (PyObj b) = Inr None \<and> normalize_linkedin_url (PyObj b) = Inr None
   \<and> normalize_email (PyObj b) = Inr None \<and> normalize_place_id (PyObj b) = Inr None
   \<and> normalize_google_id (PyObj b) = Inr None \<and> extract_domain_from_email (PyObj b) = Inr None"
    by (simp add: normalize_domain_def normalize_linkedin_url_def normalize_email_def
        normalize_place_id_def normalize_google_id_def extract_domain_from_email_def)
  have 9: "normalize_domain (PyStr []) = Inr None \<and> normalize_linkedin_url (PyStr []) = Inr None
   \<and> normalize_email (PyStr []) = Inr None \<and> normalize_place_id (PyStr []) = Inr None
   \<and> normalize_google_id (PyStr []) = Inr None \<and> extract_domain_from_email (PyStr []) = Inr None"
    by (simp add: normalize_domain_def normalize_linkedin_url_def normalize_email_def
        normalize_place_id_def normalize_google_id_def extract_domain_from_email_def)
  show ?thesis using 1 2 3 4 5 6 7 8 9 extract_total [of v] by blast
qed

text \<open>
  C4, as the claim states it, fails: the host part is not checked label by label.
  \<open>a@b..com\<close>, whose host \<open>b.\<close> ends in an empty label, is accepted.
\<close>

theorem email_host_labels_counterexample:
  "normalize_email (PyStr ''a@b..com'') = Inr (Some ''a@b..com'')
   \<and> \<not> spec_email_shape ''a@b..com''"
  by (simp add: normalize_email_def str_ev re_ev spec_ev)

text \<open>
  C4, amended: email normalization trims, lowercases, and accepts exactly the strings
  \<open>local@host.tld\<close> where the local part is a non-empty string over \<open>[a-z0-9._%+-]\<close>,
  the host is a non-empty string over \<open>[a-z0-9.-]\<close> (its labels are not checked: empty
  labels and hyphens at the ends of a label pass), and the TLD is at least two letters
  \<open>a-z\<close>; every other input, the empty string included, is rejected with \<open>None\<close>.
  \<open>John.Doe@Example.COM\<close> gives \<open>john.doe@example.com\<close>, \<open>not-an-email\<close> gives \<open>None\<close>.
\<close>

theorem normalize_email_shape:
  "normalize_email (PyStr s) =
     Inr (if (\<exists>l h t. lower (strip s) = l @ ''@'' @ h @ ''.'' @ t
                \<and> l \<noteq> [] \<and> list_all email_local_char l
                \<and> h \<noteq> [] \<and> list_all email_host_char h
                \<and> 2 \<le> length t \<and> list_all az t)
          then Some (lower (strip s)) else None)
   \<and> normalize_email (PyStr ''John.Doe@Example.COM'') = Inr (Some ''john.doe@example.com'')
   \<and> normalize_email (PyStr ''not-an-email'') = Inr None
   \<and> normalize_email (PyStr []) = Inr None
   \<and> normalize_email PyNone = Inr None"
proof -
  have 1: "normalize_email (PyStr ''John.Doe@Example.COM'') = Inr (Some ''john.doe@example.com'')"
    by (simp add: normalize_email_def str_ev re_ev)
  have 2: "normalize_email (PyStr ''not-an-email'') = Inr None"
    by (simp add: normalize_email_def str_ev re_ev)
  have 3: "normalize_email (PyStr []) = Inr None \<and> normalize_email PyNone = Inr None"
    by (simp add: normalize_email_def)
  have 0: "normalize_email (PyStr s) =
     Inr (if (\<exists>l h t. lower (strip s) = l @ ''@'' @ h @ ''.'' @ t
                \<and> l \<noteq> [] \<and> list_all email_local_char l
                \<and> h \<noteq> [] \<and> list_all email_host_char h
                \<and> 2 \<le> length t \<and> list_all az t)
          then Some (lower (strip s)) else None)"
    unfolding normalize_email_str lang_email by simp
  show ?thesis by (intro conjI 0 1 2 conjunct1 [OF 3] conjunct2 [OF 3])
qed


text \<open>
  The userinfo is not stripped either: the source takes \<open>netloc\<close> of the parse result,
  which still holds \<open>user@\<close> or \<open>user:password@\<close>. The cut at the first colon, which
  the source calls the removal of the port, then keeps the user name in place of the
  host.
\<close>

lemma domain_userinfo_kept:
  "normalize_domain (PyStr ''https://user@example.com'') = Inr None
   \<and> normalize_domain (PyStr ''https://a.b:pw@example.com/'') = Inr (Some ''a.b'')
   \<and> spec_normalize_domain ''https://a.b:pw@example.com/'' = Some ''example.com''"
  by (simp add: normalize_domain_def str_ev re_ev url_ev spec_ev)



section \<open>Idempotence\<close>

text \<open>
  C1, as the claim states it, fails: only one leading \<open>www.\<close> is stripped, so the
  normal form of \<open>www.www.example.com\<close> is \<open>www.example.com\<close>, whose normal form is
  \<open>example.com\<close>.
\<close>

theorem idempotence_counterexample:
  "normalize_domain (PyStr ''www.www.example.com'') = Inr (Some ''www.example.com'')
   \<and> normalize_domain (PyStr ''www.example.com'') = Inr (Some ''example.com'')"
  by (simp add: normalize_domain_def str_ev re_ev)

text \<open>
  LinkedIn normalization is not idempotent either: stripping the trailing slashes can
  uncover white space that the next application trims, and a result that contains
  \<open>://\<close> is parsed as a URL by the next application.
\<close>

lemma linkedin_not_idempotent:
  "normalize_linkedin_url (PyStr ''linkedin.com/a /'') = Inr (Some ''linkedin.com/a '')
   \<and> normalize_linkedin_url (PyStr ''linkedin.com/a '') = Inr (Some ''linkedin.com/a'')
   \<and> normalize_linkedin_url (PyStr ''http://linkedin.com://y'') = Inr (Some ''linkedin.com://y'')
   \<and> normalize_linkedin_url (PyStr ''linkedin.com://y'') = Inr None"
  by (simp add: normalize_linkedin_url_def str_ev re_ev url_ev)

text \<open>
  C1, amended: whenever the first application succeeds, a second application returns
  the same value for the email, place-ID and Google-ID normalizers; for the domain
  normalizer provided the first result does not begin with \<open>www.\<close>; and for the LinkedIn
  normalizer provided the first result contains no \<open>://\<close> and does not end in white
  space.
\<close>

theorem normalize_idempotent:
  "(normalize_email (PyStr s1) = Inr (Some e) \<longrightarrow> normalize_email (PyStr e) = Inr (Some e))
   \<and> (normalize_place_id (PyStr s2) = Inr (Some p) \<longrightarrow> normalize_place_id (PyStr p) = Inr (Some p))
   \<and> (normalize_google_id (PyStr s3) = Inr (Some g) \<longrightarrow> normalize_google_id (PyStr g) = Inr (Some g))
   \<and> (normalize_domain (PyStr s4) = Inr (Some d) \<and> \<not> startswith d ''www.''
        \<longrightarrow> normalize_domain (PyStr d) = Inr (Some d))
   \<and> (normalize_linkedin_url (PyStr s5) = Inr (Some l) \<and> \<not> contains ''://'' l \<and> \<not> isspace (last l)
        \<longrightarrow> normalize_linkedin_url (PyStr l) = Inr (Some l))"
  using email_idem place_idem google_idem domain_idem linkedin_idem by blast

theorem normalize_idempotent_witness:
  "normalize_email (PyStr ''John.Doe@Example.COM'') = Inr (Some ''john.doe@example.com'')
   \<and> normalize_email (PyStr ''john.doe@example.com'') = Inr (Some ''john.doe@example.com'')
   \<and> normalize_place_id (PyStr '' ChIJN1t '') = Inr (Some ''ChIJN1t'')
   \<and> normalize_place_id (PyStr ''ChIJN1t'') = Inr (Some ''ChIJN1t'')
   \<and> normalize_google_id (PyStr '' 0x12ab '') = Inr (Some ''0x12ab'')
   \<and> normalize_google_id (PyStr ''0x12ab'') = Inr (Some ''0x12ab'')
   \<and> normalize_domain (PyStr ''https://www.example.com:8080/path'') = Inr (Some ''example.com'')
   \<and> \<not> startswith ''example.com'' ''www.''
   \<and> normalize_domain (PyStr ''example.com'') = Inr (Some ''example.com'')
   \<and> normalize_linkedin_url (PyStr ''https://www.linkedin.com/company/example/'')
       = Inr (Some ''linkedin.com/company/example'')
   \<and> \<not> contains ''://'' ''linkedin.com/company/example''
   \<and> \<not> isspace (last ''linkedin.com/company/example'')
   \<and> normalize_linkedin_url (PyStr ''linkedin.com/company/example'')
       = Inr (Some ''linkedin.com/company/example'')"
proof -
  have h1: "normalize_email (PyStr ''John.Doe@Example.COM'') = Inr (Some ''john.doe@example.com'')"
    by (simp add: normalize_email_def str_ev re_ev)
  have h2: "normalize_place_id (PyStr '' ChIJN1t '') = Inr (Some ''ChIJN1t'')"
    by (simp add: normalize_place_id_def str_ev)
  have h3: "normalize_google_id (PyStr '' 0x12ab '') = Inr (Some ''0x12ab'')"
    by (simp add: normalize_google_id_def str_ev)
  have h4: "normalize_domain (PyStr ''https://www.example.com:8080/path'') = Inr (Some ''example.com'')"
    by (simp add: normalize_domain_def str_ev re_ev url_ev)
  have h4': "\<not> startswith ''example.com'' ''www.''"
    by (simp add: startswith_def)
  have h5: "normalize_linkedin_url (PyStr ''https://www.linkedin.com/company/example/'')
       = Inr (Some ''linkedin.com/company/example'')"
    by (simp add: normalize_linkedin_url_def str_ev re_ev url_ev)
  have h5': "\<not> contains ''://'' ''linkedin.com/company/example''"
    by (simp add: startswith_def)
  have h5'': "\<not> isspace (last ''linkedin.com/company/example'')"
    by (simp add: isspace_def)
  note t = normalize_idempotent [of "''John.Doe@Example.COM''" "''john.doe@example.com''"
      "'' ChIJN1t ''" "''ChIJN1t''" "'' 0x12ab ''" "''0x12ab''"
      "''https://www.example.com:8080/path''" "''example.com''"
      "''https://www.linkedin.com/company/example/''" "''linkedin.com/company/example''"]
  show ?thesis using t h1 h2 h3 h4 h4' h5 h5' h5'' by blast
qed

section \<open>The storage engine and the lookups in closed form\<close>

lemma run_query_domain:
  "run_query tbl (BASE_SELECT @ '' WHERE site ILIKE $1 OR site ILIKE $2 LIMIT 100'') [PText a, PText b]
     = Inr (take 100 (filter (where_domain a b) tbl))"
  by (simp add: run_query_def)

lemma run_query_linkedin:
  "run_query tbl (BASE_SELECT @ '' WHERE linkedin ILIKE $1 LIMIT 100'') [PText a]
     = Inr (take 100 (filter (where_linkedin a) tbl))"
  by (simp add: run_query_def)

lemma run_query_place_id:
  "run_query tbl (BASE_SELECT @ '' WHERE place_id = $1 LIMIT 1'') [PText a]
     = Inr (take 1 (filter (where_place_id a) tbl))"
  by (simp add: run_query_def)

lemma run_query_email:
  "run_query tbl (BASE_SELECT @ '' WHERE email_1 = $1 OR email_2 = $1 OR email_3 = $1 LIMIT 100'') [PText a]
     = Inr (take 100 (filter (where_email a) tbl))"
  by (simp add: run_query_def)

lemma run_query_google_id:
  "run_query tbl (BASE_SELECT @ '' WHERE google_id = $1 OR cid = $1 OR kgmid = $1 LIMIT 100'') [PText a]
     = Inr (take 100 (filter (where_google_id a) tbl))"
  by (simp add: run_query_def)

lemma run_query_emails:
  "run_query tbl (BASE_SELECT @ '' WHERE email_1 = ANY($1::text[]) OR email_2 = ANY($1::text[]) OR email_3 = ANY($1::text[]) LIMIT 1000'') [PTextArray ks]
     = Inr (take 1000 (filter (where_emails ks) tbl))"
  by (simp add: run_query_def)

lemma run_query_enriched:
  "run_query tbl (BASE_SELECT @ '' WHERE email_1 IS NOT NULL ORDER BY id LIMIT $1 OFFSET $2'') [PInt l, PInt off]
     = (if l < 0 \<or> off < 0 then Inl StorageFailure
        else Inr (take (nat l) (drop (nat off) (sort_key business_id (filter where_enriched tbl)))))"
  by (simp add: run_query_def)

lemmas run_query_simps = run_query_domain run_query_linkedin run_query_place_id run_query_email
  run_query_google_id run_query_emails run_query_enriched

lemma run_query_text_cap: "run_query tbl q (PText a # ps) = Inr rs \<Longrightarrow> length rs \<le> 100"
  unfolding run_query_def
  by (auto split: if_splits list.splits param.splits)

lemma run_query_array_cap: "run_query tbl q (PTextArray ks # ps) = Inr rs \<Longrightarrow> length rs \<le> 1000"
  unfolding run_query_def
  by (auto split: if_splits list.splits param.splits)
lemma email_not_Inl: "normalize_email v \<noteq> Inl x"
  by (cases v) (simp_all add: normalize_email_str, simp_all add: normalize_email_def)

lemma email_some_ne: "normalize_email v = Inr (Some k) \<Longrightarrow> k \<noteq> []"
proof -
  assume a: "normalize_email v = Inr (Some k)"
  then obtain s where v: "v = PyStr s" by (cases v) (auto simp: normalize_email_def)
  have "[] \<notin> lang email_pattern" by (simp add: lang_email)
  then show ?thesis using a v by (auto simp: normalize_email_str split: if_splits)
qed

lemma place_some_ne: "normalize_place_id v = Inr (Some k) \<Longrightarrow> k \<noteq> []"
  by (cases v) (auto simp: normalize_place_id_str split: if_splits, auto simp: normalize_place_id_def)

lemma google_some_ne: "normalize_google_id v = Inr (Some k) \<Longrightarrow> k \<noteq> []"
  by (cases v) (auto simp: normalize_google_id_str split: if_splits, auto simp: normalize_google_id_def)

lemma domain_some_ne: "normalize_domain v = Inr (Some k) \<Longrightarrow> k \<noteq> []"
proof -
  assume a: "normalize_domain v = Inr (Some k)"
  then obtain s where v: "v = PyStr s" by (cases v) (auto simp: normalize_domain_def)
  from a v have "dns_labels k"
    by (auto simp: normalize_domain_str Let_def split: option.splits if_splits)
  then show ?thesis by (rule dns_labels_chars(1))
qed

lemma linkedin_result_prefix:
  assumes n: "normalize_linkedin_url (PyStr s) = Inr (Some l)"
  shows "take (length ''linkedin.com'') l = ''linkedin.com''"
proof -
  from n obtain a where a: "startswith (lower (strip_www a)) ''linkedin.com''"
    and l: "l = lower (rstrip_char CHR ''/'' (strip_www a))"
    by (auto simp: normalize_linkedin_str split: option.splits if_splits)
  define x where "x = strip_www a"
  define y where "y = rstrip_char CHR ''/'' x"
  obtain k where k: "x = y @ replicate k CHR ''/''"
    using rstrip_char_prefix [of x "CHR ''/''"] y_def by blast
  have lc: "lower_char CHR ''/'' = CHR ''/''" by (simp add: lower_char_slash)
  have "lower x = l @ replicate k CHR ''/''"
    unfolding l x_def [symmetric] y_def [symmetric] by (subst k) (simp add: lower_def lc)
  moreover have "take (length ''linkedin.com'') (lower x) = ''linkedin.com''"
    using a unfolding startswith_def x_def .
  ultimately have "take (length ''linkedin.com'') (l @ replicate k CHR ''/'') = ''linkedin.com''"
    by (simp only:)
  then show ?thesis
    by (rule take_app_replicate) simp_all
qed

lemma linkedin_some_ne: "normalize_linkedin_url v = Inr (Some k) \<Longrightarrow> k \<noteq> []"
proof -
  assume a: "normalize_linkedin_url v = Inr (Some k)"
  then obtain s where v: "v = PyStr s" by (cases v) (auto simp: normalize_linkedin_url_def)
  from linkedin_result_prefix [of s k] a v show ?thesis by auto
qed

lemma normalized_emails_keys: "normalized_emails es = Inr (filtered_keys es)"
proof (induction es)
  case Nil
  show ?case by (simp add: filtered_keys_def)
next
  case (Cons e es)
  have fk: "filtered_keys (e # es) =
      (case normalize_email e of Inr (Some k) \<Rightarrow> [k] | _ \<Rightarrow> []) @ filtered_keys es"
    by (simp add: filtered_keys_def)
  show ?case
  proof (cases "normalize_email e")
    case (Inl x)
    then show ?thesis using email_not_Inl by blast
  next
    case (Inr r)
    show ?thesis
    proof (cases r)
      case None
      then show ?thesis using Inr Cons fk by simp
    next
      case (Some k)
      then have "k \<noteq> []" using Inr email_some_ne by blast
      then show ?thesis using Inr Some Cons fk by simp
    qed
  qed
qed

lemma first_row: "(case take 1 (filter P xs) of [] \<Rightarrow> None | r # x \<Rightarrow> Some r) = find P xs"
  by (induction xs) auto
lemma domain_not_Inl: "normalize_domain v \<noteq> Inl x"
  by (cases v) (simp_all add: normalize_domain_str, simp_all add: normalize_domain_def)

lemma linkedin_not_Inl: "normalize_linkedin_url v \<noteq> Inl x"
  by (cases v) (simp_all add: normalize_linkedin_str, simp_all add: normalize_linkedin_url_def)

lemma place_not_Inl: "normalize_place_id v \<noteq> Inl x"
  by (cases v) (simp_all add: normalize_place_id_str, simp_all add: normalize_place_id_def)

lemma google_not_Inl: "normalize_google_id v \<noteq> Inl x"
  by (cases v) (simp_all add: normalize_google_id_str, simp_all add: normalize_google_id_def)

lemma by_domain_closed:
  "by_domain conn k up =
     (case normalize_domain k of
        Inr (Some d) \<Rightarrow>
          fetch conn (case up of None \<Rightarrow> BASE_SELECT @ '' WHERE site ILIKE $1 OR site ILIKE $2 LIMIT 100''
                      | Some stmt \<Rightarrow> stmt)
            [PText (''%//'' @ d @ ''%''), PText (''%'' @ d @ ''%'')]
      | _ \<Rightarrow> (Inr [], conn))"
  using domain_not_Inl [of k] domain_some_ne [of k]
  by (auto simp: by_domain_def Let_def split: sum.splits option.splits)

lemma by_linkedin_closed:
  "by_linkedin conn k up =
     (case normalize_linkedin_url k of
        Inr (Some l) \<Rightarrow>
          fetch conn (case up of None \<Rightarrow> BASE_SELECT @ '' WHERE linkedin ILIKE $1 LIMIT 100''
                      | Some stmt \<Rightarrow> stmt)
            [PText (''%'' @ l @ ''%'')]
      | _ \<Rightarrow> (Inr [], conn))"
  using linkedin_not_Inl [of k] linkedin_some_ne [of k]
  by (auto simp: by_linkedin_def Let_def split: sum.splits option.splits)

lemma by_place_id_closed:
  "by_place_id conn k up =
     (case normalize_place_id k of
        Inr (Some p) \<Rightarrow>
          fetchrow conn (case up of None \<Rightarrow> BASE_SELECT @ '' WHERE place_id = $1 LIMIT 1''
                         | Some stmt \<Rightarrow> stmt)
            [PText p]
      | _ \<Rightarrow> (Inr None, conn))"
  using place_not_Inl [of k] place_some_ne [of k]
  by (auto simp: by_place_id_def Let_def split: sum.splits option.splits)

lemma by_email_closed:
  "by_email conn k up =
     (case normalize_email k of
        Inr (Some e) \<Rightarrow>
          fetch conn (case up of None \<Rightarrow> BASE_SELECT @ '' WHERE email_1 = $1 OR email_2 = $1 OR email_3 = $1 LIMIT 100''
                      | Some stmt \<Rightarrow> stmt)
            [PText e]
      | _ \<Rightarrow> (Inr [], conn))"
  using email_not_Inl [of k] email_some_ne [of k]
  by (auto simp: by_email_def Let_def split: sum.splits option.splits)

lemma by_google_id_closed:
  "by_google_id conn k up =
     (case normalize_google_id k of
        Inr (Some g) \<Rightarrow>
          fetch conn (case up of None \<Rightarrow> BASE_SELECT @ '' WHERE google_id = $1 OR cid = $1 OR kgmid = $1 LIMIT 100''
                      | Some stmt \<Rightarrow> stmt)
            [PText g]
      | _ \<Rightarrow> (Inr [], conn))"
  using google_not_Inl [of k] google_some_ne [of k]
  by (auto simp: by_google_id_def Let_def split: sum.splits option.splits)

lemma batch_by_emails_closed:
  "batch_by_emails conn es up =
     (if filtered_keys es = [] then (Inr [], conn)
      else fetch conn (case up of None \<Rightarrow> BASE_SELECT @ '' WHERE email_1 = ANY($1::text[]) OR email_2 = ANY($1::text[]) OR email_3 = ANY($1::text[]) LIMIT 1000''
                       | Some stmt \<Rightarrow> stmt)
             [PTextArray (filtered_keys es)])"
  by (auto simp: batch_by_emails_def normalized_emails_keys Let_def split: option.splits)

lemma fetch_fst:
  "fst (fetch conn q ps) = (if alive conn then run_query (table conn) q ps else Inl StorageFailure)"
  by (simp add: fetch_def)

lemma fetch_snd: "snd (fetch conn q ps) = conn\<lparr>issued := issued conn @ [(q, ps)]\<rparr>"
  by (simp add: fetch_def)

lemma fetchrow_snd: "snd (fetchrow conn q ps) = conn\<lparr>issued := issued conn @ [(q, ps)]\<rparr>"
  by (simp add: fetchrow_def fetch_def split: sum.splits)

lemma fetch_text_cap: "fst (fetch conn q (PText a # ps)) = Inr rs \<Longrightarrow> length rs \<le> 100"
  using run_query_text_cap by (auto simp: fetch_def split: if_splits)

lemma fetch_array_cap: "fst (fetch conn q (PTextArray a # ps)) = Inr rs \<Longrightarrow> length rs \<le> 1000"
  using run_query_array_cap by (auto simp: fetch_def split: if_splits)

lemma first_row_Suc:
  "(case take (Suc 0) (filter P xs) of [] \<Rightarrow> None | r # x \<Rightarrow> Some r) = find P xs"
  by (induction xs) auto

lemma by_place_id_find:
  "normalize_place_id k = Inr (Some p) \<Longrightarrow> alive conn \<Longrightarrow>
     fst (by_place_id conn k None) = Inr (find (\<lambda>r. place_id r = Some p) (table conn))"
proof -
  have "where_place_id p = (\<lambda>r. place_id r = Some p)" by (auto simp: where_place_id_def)
  then show "normalize_place_id k = Inr (Some p) \<Longrightarrow> alive conn \<Longrightarrow> ?thesis"
    by (simp add: by_place_id_closed fetchrow_def fetch_def run_query_simps first_row_Suc)
qed
lemma place_endpoint_fst:
  "fst (get_business_by_place_id conn s) =
     (case fst (by_place_id conn (PyStr s) None) of
        Inl e \<Rightarrow> HTTPException 500
      | Inr None \<Rightarrow> HTTPException 404
      | Inr (Some b) \<Rightarrow> Ok b)"
  by (simp add: get_business_by_place_id_def split: prod.splits sum.splits option.splits)

lemma find_absent: "Some p \<notin> f ` set xs \<Longrightarrow> find (\<lambda>r. f r = Some p) xs = None"
  by (induction xs) auto

lemma find_present:
  "Some p \<in> f ` set xs \<Longrightarrow> \<exists>r. find (\<lambda>r. f r = Some p) xs = Some r \<and> r \<in> set xs \<and> f r = Some p"
  by (induction xs) auto
lemma filtered_keys_Nil: "filtered_keys [] = []"
  by (simp add: filtered_keys_def)

lemma filtered_keys_Cons:
  "filtered_keys (e # es) =
     (case normalize_email e of Inr (Some k) \<Rightarrow> k # filtered_keys es | _ \<Rightarrow> filtered_keys es)"
  by (simp add: filtered_keys_def split: sum.splits option.splits)

lemma filtered_keys_append: "filtered_keys (xs @ ys) = filtered_keys xs @ filtered_keys ys"
  by (simp add: filtered_keys_def)

lemma filtered_keys_set: "k \<in> set (filtered_keys es) \<longleftrightarrow> Inr (Some k) \<in> normalize_email ` set es"
proof (induction es)
  case Nil
  show ?case by (simp add: filtered_keys_Nil)
next
  case (Cons e es)
  show ?case
  proof (cases "normalize_email e")
    case (Inl x)
    then show ?thesis using Cons by (auto simp: filtered_keys_Cons)
  next
    case (Inr o1)
    then show ?thesis using Cons by (cases o1) (auto simp: filtered_keys_Cons)
  qed
qed

lemma where_emails_iff:
  "where_emails ks r \<longleftrightarrow>
     email_1 r \<in> Some ` set ks \<or> email_2 r \<in> Some ` set ks \<or> email_3 r \<in> Some ` set ks"
  by (auto simp: where_emails_def eq_any_def split: option.splits)

lemma where_emails_Nil: "filter (where_emails []) tbl = []"
  by (induction tbl) (auto simp: where_emails_def eq_any_def split: option.splits)

lemma batch_endpoint_fst:
  "fst (get_businesses_by_email_batch conn emails) =
     (if length emails < 1 \<or> 100 < length emails then HTTPException 422
      else (case fst (batch_by_emails conn (map PyStr emails) None) of
              Inl e \<Rightarrow> HTTPException 500
            | Inr businesses \<Rightarrow> Ok (length businesses, businesses)))"
  by (simp add: get_businesses_by_email_batch_def split: prod.splits sum.splits)
lemma example_table_length: "length (example_table n) = n"
  by (simp add: example_table_def)

lemma example_table_filter:
  "(\<And>i. P (example_row i)) \<Longrightarrow> filter P (example_table n) = example_table n"
  by (simp add: example_table_def)

lemma example_conn_sel:
  "table (example_conn tbl) = tbl" "alive (example_conn tbl)" "issued (example_conn tbl) = []"
  by (simp_all add: example_conn_def)

lemma list_cap_domain:
  "fst (by_domain conn k up) = Inr rs \<Longrightarrow> length rs \<le> 100"
  by (auto simp: by_domain_closed dest: fetch_text_cap split: sum.splits option.splits)

lemma list_cap_linkedin:
  "fst (by_linkedin conn k up) = Inr rs \<Longrightarrow> length rs \<le> 100"
  by (auto simp: by_linkedin_closed dest: fetch_text_cap split: sum.splits option.splits)

lemma list_cap_email:
  "fst (by_email conn k up) = Inr rs \<Longrightarrow> length rs \<le> 100"
  by (auto simp: by_email_closed dest: fetch_text_cap split: sum.splits option.splits)

lemma list_cap_google_id:
  "fst (by_google_id conn k up) = Inr rs \<Longrightarrow> length rs \<le> 100"
  by (auto simp: by_google_id_closed dest: fetch_text_cap split: sum.splits option.splits)

lemma list_cap_batch:
  "fst (batch_by_emails conn es up) = Inr rs \<Longrightarrow> length rs \<le> 1000"
  by (auto simp: batch_by_emails_closed dest: fetch_array_cap split: if_splits)

lemma take_full: "n \<le> length xs \<Longrightarrow> length (take n xs) = n"
  by simp
lemma enriched_fst:
  "0 \<le> limit \<Longrightarrow> 0 \<le> offset \<Longrightarrow> alive conn \<Longrightarrow>
     fst (enriched_contacts conn limit offset None)
       = Inr (take (nat limit) (drop (nat offset) (enriched_set (table conn))))"
  by (simp add: enriched_contacts_def fetch_fst run_query_enriched enriched_set_def)

lemma enriched_snd:
  "table (snd (enriched_contacts conn limit offset up)) = table conn"
  "alive (snd (enriched_contacts conn limit offset up)) = alive conn"
  by (simp_all add: enriched_contacts_def fetch_snd split: option.splits)

lemma enriched_endpoint_fst:
  "fst (get_enriched_contacts conn limit offset) =
     (if limit < 1 \<or> 1000 < limit \<or> offset < 0 then HTTPException 422
      else (case fst (enriched_contacts conn limit offset None) of
              Inl e \<Rightarrow> HTTPException 500
            | Inr businesses \<Rightarrow> Ok (length businesses, businesses)))"
  by (simp add: get_enriched_contacts_def split: prod.splits sum.splits)

lemma count_list_insort:
  "count_list (insort_key f x xs) r = count_list (x # xs) r"
  by (induction xs) auto

lemma count_list_sort: "count_list (sort_key f xs) r = count_list xs r"
  by (induction xs) (auto simp: count_list_insort)

lemma count_list_filter:
  "count_list (filter P xs) r = (if P r then count_list xs r else 0)"
  by (induction xs) auto

lemma enriched_set_count:
  "count_list (enriched_set tbl) r = (if email_1 r \<noteq> None then count_list tbl r else 0)"
  by (simp add: enriched_set_def count_list_sort count_list_filter where_enriched_def)

lemma enriched_set_set: "set (enriched_set tbl) = {r \<in> set tbl. email_1 r \<noteq> None}"
  by (auto simp: enriched_set_def where_enriched_def)

lemma enriched_set_sorted: "sorted (map business_id (enriched_set tbl))"
  by (simp add: enriched_set_def)

lemma enriched_set_distinct:
  "distinct (map business_id tbl) \<Longrightarrow> distinct (map business_id (enriched_set tbl))"
proof -
  assume d: "distinct (map business_id tbl)"
  then have "distinct (map business_id (filter where_enriched tbl))"
    by (rule distinct_map_filter)
  then have "distinct (filter where_enriched tbl) \<and> inj_on business_id (set (filter where_enriched tbl))"
    by (simp add: distinct_map)
  then show ?thesis
    by (simp add: enriched_set_def distinct_map)
qed

lemma enriched_set_strict:
  "distinct (map business_id tbl) \<Longrightarrow> sorted_wrt (<) (map business_id (enriched_set tbl))"
  using enriched_set_sorted [of tbl] enriched_set_distinct [of tbl]
  by (simp add: strict_sorted_iff)

lemma two_pages: "take n xs @ take n (drop n xs) = take (n + n) xs"
  by (simp add: take_add)

lemma pages_disjoint:
  assumes "distinct xs"
  shows "set (take n xs) \<inter> set (take m (drop n xs)) = {}"
proof -
  have "set (take m (drop n xs)) \<subseteq> set (drop n xs)" by (rule set_take_subset)
  moreover have "set (take n xs) \<inter> set (drop n xs) = {}"
    using assms by (rule set_take_disj_set_drop_if_distinct) simp
  ultimately show ?thesis by blast
qed

lemma sorted_wrt_take_map:
  "sorted_wrt R (map f xs) \<Longrightarrow> sorted_wrt R (map f (take n xs))"
  by (simp add: take_map [symmetric] sorted_wrt_take)
section \<open>Rejected keys and the place-ID lookup\<close>

text \<open>
  C2: a raw key that its normalizer rejects makes every list lookup return the empty
  list, whatever the state of the storage, without an error and without a statement
  sent; the place-ID lookup returns \<open>None\<close> instead, which its endpoint answers with
  status 404. A well-formed place ID that no row holds gives \<open>None\<close> and 404 as well,
  not an empty list; one that a row holds gives one record, the first row with that
  place ID.
\<close>

theorem rejected_key_outcomes:
  "(normalize_domain k1 = Inr None \<longrightarrow> by_domain conn k1 up = (Inr [], conn))
   \<and> (normalize_linkedin_url k2 = Inr None \<longrightarrow> by_linkedin conn k2 up = (Inr [], conn))
   \<and> (normalize_email k3 = Inr None \<longrightarrow> by_email conn k3 up = (Inr [], conn))
   \<and> (normalize_google_id k4 = Inr None \<longrightarrow> by_google_id conn k4 up = (Inr [], conn))
   \<and> (filtered_keys es = [] \<longrightarrow> batch_by_emails conn es up = (Inr [], conn))
   \<and> (normalize_place_id (PyStr s0) = Inr None
        \<longrightarrow> by_place_id conn (PyStr s0) up = (Inr None, conn)
            \<and> get_business_by_place_id conn s0 = (HTTPException 404, conn))
   \<and> (normalize_place_id (PyStr s1) = Inr (Some p1) \<and> alive c1 \<and> Some p1 \<notin> place_id ` set (table c1)
        \<longrightarrow> fst (by_place_id c1 (PyStr s1) None) = Inr None
            \<and> fst (get_business_by_place_id c1 s1) = HTTPException 404)
   \<and> (normalize_place_id (PyStr s2) = Inr (Some p2) \<and> alive c2 \<and> Some p2 \<in> place_id ` set (table c2)
        \<longrightarrow> (\<exists>r. find (\<lambda>r. place_id r = Some p2) (table c2) = Some r
                 \<and> r \<in> set (table c2) \<and> place_id r = Some p2
                 \<and> fst (by_place_id c2 (PyStr s2) None) = Inr (Some r)
                 \<and> fst (get_business_by_place_id c2 s2) = Ok r))"
proof -
  have 1: "normalize_domain k1 = Inr None \<longrightarrow> by_domain conn k1 up = (Inr [], conn)"
    by (simp add: by_domain_closed)
  have 2: "normalize_linkedin_url k2 = Inr None \<longrightarrow> by_linkedin conn k2 up = (Inr [], conn)"
    by (simp add: by_linkedin_closed)
  have 3: "normalize_email k3 = Inr None \<longrightarrow> by_email conn k3 up = (Inr [], conn)"
    by (simp add: by_email_closed)
  have 4: "normalize_google_id k4 = Inr None \<longrightarrow> by_google_id conn k4 up = (Inr [], conn)"
    by (simp add: by_google_id_closed)
  have 5: "filtered_keys es = [] \<longrightarrow> batch_by_emails conn es up = (Inr [], conn)"
    by (simp add: batch_by_emails_closed)
  have 6: "normalize_place_id (PyStr s0) = Inr None
        \<longrightarrow> by_place_id conn (PyStr s0) up = (Inr None, conn)
            \<and> get_business_by_place_id conn s0 = (HTTPException 404, conn)"
    by (simp add: by_place_id_closed get_business_by_place_id_def)
  have 7: "normalize_place_id (PyStr s1) = Inr (Some p1) \<and> alive c1 \<and> Some p1 \<notin> place_id ` set (table c1)
        \<longrightarrow> fst (by_place_id c1 (PyStr s1) None) = Inr None
            \<and> fst (get_business_by_place_id c1 s1) = HTTPException 404"
  proof (intro impI, elim conjE)
    assume n: "normalize_place_id (PyStr s1) = Inr (Some p1)" and a: "alive c1"
      and m: "Some p1 \<notin> place_id ` set (table c1)"
    have "fst (by_place_id c1 (PyStr s1) None) = Inr None"
      using by_place_id_find [OF n a] find_absent [OF m] by simp
    then show "fst (by_place_id c1 (PyStr s1) None) = Inr None
            \<and> fst (get_business_by_place_id c1 s1) = HTTPException 404"
      by (simp add: place_endpoint_fst)
  qed
  have 8: "normalize_place_id (PyStr s2) = Inr (Some p2) \<and> alive c2 \<and> Some p2 \<in> place_id ` set (table c2)
        \<longrightarrow> (\<exists>r. find (\<lambda>r. place_id r = Some p2) (table c2) = Some r
                 \<and> r \<in> set (table c2) \<and> place_id r = Some p2
                 \<and> fst (by_place_id c2 (PyStr s2) None) = Inr (Some r)
                 \<and> fst (get_business_by_place_id c2 s2) = Ok r)"
  proof (intro impI, elim conjE)
    assume n: "normalize_place_id (PyStr s2) = Inr (Some p2)" and a: "alive c2"
      and m: "Some p2 \<in> place_id ` set (table c2)"
    from find_present [OF m] obtain r where
      r: "find (\<lambda>r. place_id r = Some p2) (table c2) = Some r" "r \<in> set (table c2)"
         "place_id r = Some p2"
      by blast
    have b: "fst (by_place_id c2 (PyStr s2) None) = Inr (Some r)"
      using by_place_id_find [OF n a] r(1) by simp
    then have "fst (get_business_by_place_id c2 s2) = Ok r"
      by (simp add: place_endpoint_fst)
    with r b show "\<exists>r. find (\<lambda>r. place_id r = Some p2) (table c2) = Some r
                 \<and> r \<in> set (table c2) \<and> place_id r = Some p2
                 \<and> fst (by_place_id c2 (PyStr s2) None) = Inr (Some r)
                 \<and> fst (get_business_by_place_id c2 s2) = Ok r"
      by blast
  qed
  show ?thesis by (intro conjI 1 2 3 4 5 6 7 8)
qed

theorem rejected_key_outcomes_witness:
  "normalize_domain (PyStr ''not-a-domain'') = Inr None
   \<and> by_domain (example_conn []) (PyStr ''not-a-domain'') None = (Inr [], example_conn [])
   \<and> normalize_linkedin_url (PyStr ''example.com/in/x'') = Inr None
   \<and> by_linkedin (example_conn []) (PyStr ''example.com/in/x'') None = (Inr [], example_conn [])
   \<and> normalize_email (PyStr ''not-an-email'') = Inr None
   \<and> by_email (example_conn []) (PyStr ''not-an-email'') None = (Inr [], example_conn [])
   \<and> normalize_google_id (PyStr ''  '') = Inr None
   \<and> by_google_id (example_conn []) (PyStr ''  '') None = (Inr [], example_conn [])
   \<and> filtered_keys [PyStr ''not-an-email'', PyNone] = []
   \<and> batch_by_emails (example_conn []) [PyStr ''not-an-email'', PyNone] None = (Inr [], example_conn [])
   \<and> normalize_place_id (PyStr ''  '') = Inr None
   \<and> get_business_by_place_id (example_conn []) ''  '' = (HTTPException 404, example_conn [])
   \<and> normalize_place_id (PyStr '' ChIJ1 '') = Inr (Some ''ChIJ1'')
   \<and> alive (example_conn [example_business 7 (Some ''ChIJ2'') None])
   \<and> Some ''ChIJ1'' \<notin> place_id ` set (table (example_conn [example_business 7 (Some ''ChIJ2'') None]))
   \<and> fst (get_business_by_place_id (example_conn [example_business 7 (Some ''ChIJ2'') None]) '' ChIJ1 '')
       = HTTPException 404
   \<and> normalize_place_id (PyStr '' ChIJ2 '') = Inr (Some ''ChIJ2'')
   \<and> Some ''ChIJ2'' \<in> place_id ` set (table (example_conn [example_business 7 (Some ''ChIJ2'') None]))
   \<and> fst (get_business_by_place_id (example_conn [example_business 7 (Some ''ChIJ2'') None]) '' ChIJ2 '')
       = Ok (example_business 7 (Some ''ChIJ2'') None)"
proof -
  let ?c = "example_conn []"
  let ?d = "example_conn [example_business 7 (Some ''ChIJ2'') None]"
  have h1: "normalize_domain (PyStr ''not-a-domain'') = Inr None"
    by (simp add: normalize_domain_def str_ev re_ev)
  have h2: "normalize_linkedin_url (PyStr ''example.com/in/x'') = Inr None"
    by (simp add: normalize_linkedin_url_def str_ev re_ev)
  have h3: "normalize_email (PyStr ''not-an-email'') = Inr None"
    by (simp add: normalize_email_def str_ev re_ev)
  have h4: "normalize_google_id (PyStr ''  '') = Inr None"
    by (simp add: normalize_google_id_def str_ev)
  have h5: "filtered_keys [PyStr ''not-an-email'', PyNone] = []"
    using h3 by (simp add: filtered_keys_def normalize_email_def)
  have h6: "normalize_place_id (PyStr ''  '') = Inr None"
    by (simp add: normalize_place_id_def str_ev)
  have h7: "normalize_place_id (PyStr '' ChIJ1 '') = Inr (Some ''ChIJ1'')"
    by (simp add: normalize_place_id_def str_ev)
  have a: "alive ?d"
    by (simp add: example_conn_def)
  have m7: "Some ''ChIJ1'' \<notin> place_id ` set (table ?d)"
    by (simp add: example_conn_def example_business_def)
  have h8: "normalize_place_id (PyStr '' ChIJ2 '') = Inr (Some ''ChIJ2'')"
    by (simp add: normalize_place_id_def str_ev)
  have m8: "Some ''ChIJ2'' \<in> place_id ` set (table ?d)"
    by (simp add: example_conn_def example_business_def)
  have f8: "find (\<lambda>r. place_id r = Some ''ChIJ2'') (table ?d) = Some (example_business 7 (Some ''ChIJ2'') None)"
    by (simp add: example_conn_def example_business_def)
  note T = rejected_key_outcomes [where ?k1.0 = "PyStr ''not-a-domain''" and conn = ?c and up = None
      and ?k2.0 = "PyStr ''example.com/in/x''" and ?k3.0 = "PyStr ''not-an-email''"
      and ?k4.0 = "PyStr ''  ''" and es = "[PyStr ''not-an-email'', PyNone]" and ?s0.0 = "''  ''"
      and ?s1.0 = "'' ChIJ1 ''" and ?p1.0 = "''ChIJ1''" and ?c1.0 = ?d
      and ?s2.0 = "'' ChIJ2 ''" and ?p2.0 = "''ChIJ2''" and ?c2.0 = ?d]
  from T h1 have c1: "by_domain ?c (PyStr ''not-a-domain'') None = (Inr [], ?c)" by blast
  from T h2 have c2: "by_linkedin ?c (PyStr ''example.com/in/x'') None = (Inr [], ?c)" by blast
  from T h3 have c3: "by_email ?c (PyStr ''not-an-email'') None = (Inr [], ?c)" by blast
  from T h4 have c4: "by_google_id ?c (PyStr ''  '') None = (Inr [], ?c)" by blast
  from T h5 have c5: "batch_by_emails ?c [PyStr ''not-an-email'', PyNone] None = (Inr [], ?c)" by blast
  from T h6 have c6: "get_business_by_place_id ?c ''  '' = (HTTPException 404, ?c)" by blast
  from T h7 a m7 have c7: "fst (get_business_by_place_id ?d '' ChIJ1 '') = HTTPException 404" by blast
  from T h8 a m8 obtain r where
    r: "find (\<lambda>r. place_id r = Some ''ChIJ2'') (table ?d) = Some r"
       "fst (get_business_by_place_id ?d '' ChIJ2 '') = Ok r"
    by blast
  from r f8 have c8: "fst (get_business_by_place_id ?d '' ChIJ2 '') = Ok (example_business 7 (Some ''ChIJ2'') None)"
    by simp
  show ?thesis by (intro conjI h1 c1 h2 c2 h3 c3 h4 c4 h5 c5 h6 c6 h7 a m7 c7 h8 m8 c8)
qed

section \<open>The lenient batch lookup\<close>

text \<open>
  C5: the batch email lookup normalizes each entry on its own and leaves out every
  entry that fails, so that no entry makes the call fail: the keys kept are exactly the
  normal forms of the entries that normalize, in the order of the batch. Where no key is
  kept, the result is the empty list and no statement is sent. Otherwise one statement
  is sent, with the kept keys as its only parameter, and where the storage answers the
  result is the list of the rows in which one of the three email columns holds one of
  the kept keys, cut after 1000 rows. The endpoint, for a batch of 1 to 100 entries,
  answers with that list and its length. The batch of \<open>test@example.com\<close> and
  \<open>not-an-email\<close> keeps the one key \<open>test@example.com\<close>.
\<close>

theorem batch_lenient:
  "batch_by_emails conn es None =
     (if filtered_keys es = [] then (Inr [], conn)
      else (if alive conn
            then Inr (take 1000 (filter (where_emails (filtered_keys es)) (table conn)))
            else Inl StorageFailure,
            conn\<lparr>issued := issued conn @
              [(BASE_SELECT @ '' WHERE email_1 = ANY($1::text[]) OR email_2 = ANY($1::text[]) OR email_3 = ANY($1::text[]) LIMIT 1000'',
                [PTextArray (filtered_keys es)])]\<rparr>))
   \<and> filtered_keys [] = []
   \<and> filtered_keys (e # es) =
        (case normalize_email e of Inr (Some k) \<Rightarrow> k # filtered_keys es | _ \<Rightarrow> filtered_keys es)
   \<and> filtered_keys (es @ es') = filtered_keys es @ filtered_keys es'
   \<and> (k \<in> set (filtered_keys es) \<longleftrightarrow> Inr (Some k) \<in> normalize_email ` set es)
   \<and> (where_emails ks r \<longleftrightarrow>
        email_1 r \<in> Some ` set ks \<or> email_2 r \<in> Some ` set ks \<or> email_3 r \<in> Some ` set ks)
   \<and> (1 \<le> length emails \<and> length emails \<le> 100 \<and> alive conn
        \<longrightarrow> fst (get_businesses_by_email_batch conn emails) =
              Ok (length (take 1000 (filter (where_emails (filtered_keys (map PyStr emails))) (table conn))),
                  take 1000 (filter (where_emails (filtered_keys (map PyStr emails))) (table conn))))
   \<and> filtered_keys [PyStr ''test@example.com'', PyStr ''not-an-email''] = [''test@example.com'']"
proof -
  have 1: "batch_by_emails conn es None =
     (if filtered_keys es = [] then (Inr [], conn)
      else (if alive conn
            then Inr (take 1000 (filter (where_emails (filtered_keys es)) (table conn)))
            else Inl StorageFailure,
            conn\<lparr>issued := issued conn @
              [(BASE_SELECT @ '' WHERE email_1 = ANY($1::text[]) OR email_2 = ANY($1::text[]) OR email_3 = ANY($1::text[]) LIMIT 1000'',
                [PTextArray (filtered_keys es)])]\<rparr>))" for conn es
    by (simp add: batch_by_emails_closed fetch_def run_query_emails)
  have 7: "1 \<le> length emails \<and> length emails \<le> 100 \<and> alive conn
        \<longrightarrow> fst (get_businesses_by_email_batch conn emails) =
              Ok (length (take 1000 (filter (where_emails (filtered_keys (map PyStr emails))) (table conn))),
                  take 1000 (filter (where_emails (filtered_keys (map PyStr emails))) (table conn)))"
    by (simp add: batch_endpoint_fst 1 where_emails_Nil)
  have 8: "filtered_keys [PyStr ''test@example.com'', PyStr ''not-an-email''] = [''test@example.com'']"
    by (simp add: filtered_keys_def normalize_email_def str_ev re_ev)
  show ?thesis
    by (intro conjI 1 filtered_keys_Nil filtered_keys_Cons filtered_keys_append filtered_keys_set
        where_emails_iff 7 8)
qed

theorem batch_lenient_witness:
  "1 \<le> length [''Test@Example.com '', ''not-an-email'']
   \<and> length [''Test@Example.com '', ''not-an-email''] \<le> 100
   \<and> alive (example_conn [example_business 1 None (Some ''other@example.com''),
                          example_business 2 None (Some ''test@example.com'')])
   \<and> fst (get_businesses_by_email_batch
            (example_conn [example_business 1 None (Some ''other@example.com''),
                           example_business 2 None (Some ''test@example.com'')])
            [''Test@Example.com '', ''not-an-email''])
       = Ok (1, [example_business 2 None (Some ''test@example.com'')])"
proof -
  let ?c = "example_conn [example_business 1 None (Some ''other@example.com''),
                          example_business 2 None (Some ''test@example.com'')]"
  have a: "alive ?c" by (simp add: example_conn_def)
  have k: "filtered_keys (map PyStr [''Test@Example.com '', ''not-an-email'']) = [''test@example.com'']"
    by (simp add: filtered_keys_def normalize_email_def str_ev re_ev)
  have f: "take 1000 (filter (where_emails [''test@example.com'']) (table ?c))
           = [example_business 2 None (Some ''test@example.com'')]"
    by (simp add: example_conn_def example_business_def where_emails_def eq_any_def)
  from batch_lenient [where emails = "[''Test@Example.com '', ''not-an-email'']" and conn = ?c]
  have "1 \<le> length [''Test@Example.com '', ''not-an-email'']
        \<and> length [''Test@Example.com '', ''not-an-email''] \<le> 100 \<and> alive ?c
        \<longrightarrow> fst (get_businesses_by_email_batch ?c [''Test@Example.com '', ''not-an-email'']) =
              Ok (length (take 1000 (filter (where_emails (filtered_keys (map PyStr [''Test@Example.com '', ''not-an-email'']))) (table ?c))),
                  take 1000 (filter (where_emails (filtered_keys (map PyStr [''Test@Example.com '', ''not-an-email'']))) (table ?c)))"
    by blast
  with a have "fst (get_businesses_by_email_batch ?c [''Test@Example.com '', ''not-an-email'']) =
              Ok (length (take 1000 (filter (where_emails (filtered_keys (map PyStr [''Test@Example.com '', ''not-an-email'']))) (table ?c))),
                  take 1000 (filter (where_emails (filtered_keys (map PyStr [''Test@Example.com '', ''not-an-email'']))) (table ?c)))"
    by simp
  then have "fst (get_businesses_by_email_batch ?c [''Test@Example.com '', ''not-an-email''])
       = Ok (1, [example_business 2 None (Some ''test@example.com'')])"
    unfolding k f by simp
  with a show ?thesis by simp
qed

section \<open>Result caps\<close>

text \<open>
  C6: whatever the key, the prepared statement and the state of the storage, a
  single-key list lookup (domain, LinkedIn, email, Google ID) that returns a list
  returns at most 100 records, and the batch lookup at most 1000; the caps are part of
  the statement texts and no parameter changes them. Where the storage answers and the
  key is accepted, the result is the list of the matching rows cut after 100 (1000 for
  the batch), so a lookup that matches at least 100 rows (1000 for the batch) returns
  exactly 100 (1000) records. The place-ID lookup returns the first matching row or
  none.
\<close>

theorem result_caps:
  "(fst (by_domain conn k1 up) = Inr rs1 \<longrightarrow> length rs1 \<le> 100)
   \<and> (fst (by_linkedin conn k2 up) = Inr rs2 \<longrightarrow> length rs2 \<le> 100)
   \<and> (fst (by_email conn k3 up) = Inr rs3 \<longrightarrow> length rs3 \<le> 100)
   \<and> (fst (by_google_id conn k4 up) = Inr rs4 \<longrightarrow> length rs4 \<le> 100)
   \<and> (fst (batch_by_emails big es up) = Inr rs5 \<longrightarrow> length rs5 \<le> 1000)
   \<and> (alive conn \<and> normalize_domain k1 = Inr (Some d) \<longrightarrow>
        fst (by_domain conn k1 None)
          = Inr (take 100 (filter (where_domain (''%//'' @ d @ ''%'') (''%'' @ d @ ''%'')) (table conn)))
        \<and> (100 \<le> length (filter (where_domain (''%//'' @ d @ ''%'') (''%'' @ d @ ''%'')) (table conn))
             \<longrightarrow> length (take 100 (filter (where_domain (''%//'' @ d @ ''%'') (''%'' @ d @ ''%'')) (table conn))) = 100))
   \<and> (alive conn \<and> normalize_linkedin_url k2 = Inr (Some l) \<longrightarrow>
        fst (by_linkedin conn k2 None)
          = Inr (take 100 (filter (where_linkedin (''%'' @ l @ ''%'')) (table conn)))
        \<and> (100 \<le> length (filter (where_linkedin (''%'' @ l @ ''%'')) (table conn))
             \<longrightarrow> length (take 100 (filter (where_linkedin (''%'' @ l @ ''%'')) (table conn))) = 100))
   \<and> (alive conn \<and> normalize_email k3 = Inr (Some e) \<longrightarrow>
        fst (by_email conn k3 None) = Inr (take 100 (filter (where_email e) (table conn)))
        \<and> (100 \<le> length (filter (where_email e) (table conn))
             \<longrightarrow> length (take 100 (filter (where_email e) (table conn))) = 100))
   \<and> (alive conn \<and> normalize_google_id k4 = Inr (Some g) \<longrightarrow>
        fst (by_google_id conn k4 None) = Inr (take 100 (filter (where_google_id g) (table conn)))
        \<and> (100 \<le> length (filter (where_google_id g) (table conn))
             \<longrightarrow> length (take 100 (filter (where_google_id g) (table conn))) = 100))
   \<and> (alive big \<and> filtered_keys es \<noteq> [] \<longrightarrow>
        fst (batch_by_emails big es None)
          = Inr (take 1000 (filter (where_emails (filtered_keys es)) (table big)))
        \<and> (1000 \<le> length (filter (where_emails (filtered_keys es)) (table big))
             \<longrightarrow> length (take 1000 (filter (where_emails (filtered_keys es)) (table big))) = 1000))
   \<and> (alive conn \<and> normalize_place_id k5 = Inr (Some p) \<longrightarrow>
        fst (by_place_id conn k5 None) = Inr (find (\<lambda>r. place_id r = Some p) (table conn)))"
proof -
  have 1: "fst (by_domain conn k1 up) = Inr rs1 \<longrightarrow> length rs1 \<le> 100"
    by (blast intro: list_cap_domain)
  have 2: "fst (by_linkedin conn k2 up) = Inr rs2 \<longrightarrow> length rs2 \<le> 100"
    by (blast intro: list_cap_linkedin)
  have 3: "fst (by_email conn k3 up) = Inr rs3 \<longrightarrow> length rs3 \<le> 100"
    by (blast intro: list_cap_email)
  have 4: "fst (by_google_id conn k4 up) = Inr rs4 \<longrightarrow> length rs4 \<le> 100"
    by (blast intro: list_cap_google_id)
  have 5: "fst (batch_by_emails big es up) = Inr rs5 \<longrightarrow> length rs5 \<le> 1000"
    by (blast intro: list_cap_batch)
  have 6: "alive conn \<and> normalize_domain k1 = Inr (Some d) \<longrightarrow>
        fst (by_domain conn k1 None)
          = Inr (take 100 (filter (where_domain (''%//'' @ d @ ''%'') (''%'' @ d @ ''%'')) (table conn)))
        \<and> (100 \<le> length (filter (where_domain (''%//'' @ d @ ''%'') (''%'' @ d @ ''%'')) (table conn))
             \<longrightarrow> length (take 100 (filter (where_domain (''%//'' @ d @ ''%'') (''%'' @ d @ ''%'')) (table conn))) = 100)"
    by (simp add: by_domain_closed fetch_fst run_query_domain)
  have 7: "alive conn \<and> normalize_linkedin_url k2 = Inr (Some l) \<longrightarrow>
        fst (by_linkedin conn k2 None)
          = Inr (take 100 (filter (where_linkedin (''%'' @ l @ ''%'')) (table conn)))
        \<and> (100 \<le> length (filter (where_linkedin (''%'' @ l @ ''%'')) (table conn))
             \<longrightarrow> length (take 100 (filter (where_linkedin (''%'' @ l @ ''%'')) (table conn))) = 100)"
    by (simp add: by_linkedin_closed fetch_fst run_query_linkedin)
  have 8: "alive conn \<and> normalize_email k3 = Inr (Some e) \<longrightarrow>
        fst (by_email conn k3 None) = Inr (take 100 (filter (where_email e) (table conn)))
        \<and> (100 \<le> length (filter (where_email e) (table conn))
             \<longrightarrow> length (take 100 (filter (where_email e) (table conn))) = 100)"
    by (simp add: by_email_closed fetch_fst run_query_email)
  have 9: "alive conn \<and> normalize_google_id k4 = Inr (Some g) \<longrightarrow>
        fst (by_google_id conn k4 None) = Inr (take 100 (filter (where_google_id g) (table conn)))
        \<and> (100 \<le> length (filter (where_google_id g) (table conn))
             \<longrightarrow> length (take 100 (filter (where_google_id g) (table conn))) = 100)"
    by (simp add: by_google_id_closed fetch_fst run_query_google_id)
  have 10: "alive big \<and> filtered_keys es \<noteq> [] \<longrightarrow>
        fst (batch_by_emails big es None)
          = Inr (take 1000 (filter (where_emails (filtered_keys es)) (table big)))
        \<and> (1000 \<le> length (filter (where_emails (filtered_keys es)) (table big))
             \<longrightarrow> length (take 1000 (filter (where_emails (filtered_keys es)) (table big))) = 1000)"
    by (simp add: batch_by_emails_closed fetch_fst run_query_emails)
  have 11: "alive conn \<and> normalize_place_id k5 = Inr (Some p) \<longrightarrow>
        fst (by_place_id conn k5 None) = Inr (find (\<lambda>r. place_id r = Some p) (table conn))"
    by (blast intro: by_place_id_find)
  show ?thesis by (intro conjI 1 2 3 4 5 6 7 8 9 10 11)
qed

text \<open>
  A table of 150 rows that all match (1200 rows for the batch): each list lookup
  returns exactly the first 100 rows (1000 for the batch).
\<close>

theorem result_caps_witness:
  "alive (example_conn (example_table 150))
   \<and> normalize_domain (PyStr ''https://www.example.com/'') = Inr (Some ''example.com'')
   \<and> length (filter (where_domain ''%//example.com%'' ''%example.com%'') (example_table 150)) = 150
   \<and> fst (by_domain (example_conn (example_table 150)) (PyStr ''https://www.example.com/'') None)
       = Inr (take 100 (example_table 150))
   \<and> normalize_linkedin_url (PyStr ''https://www.linkedin.com/in/x/'') = Inr (Some ''linkedin.com/in/x'')
   \<and> fst (by_linkedin (example_conn (example_table 150)) (PyStr ''https://www.linkedin.com/in/x/'') None)
       = Inr (take 100 (example_table 150))
   \<and> normalize_email (PyStr ''Test@Example.com'') = Inr (Some ''test@example.com'')
   \<and> fst (by_email (example_conn (example_table 150)) (PyStr ''Test@Example.com'') None)
       = Inr (take 100 (example_table 150))
   \<and> normalize_google_id (PyStr '' 0x89c2'') = Inr (Some ''0x89c2'')
   \<and> fst (by_google_id (example_conn (example_table 150)) (PyStr '' 0x89c2'') None)
       = Inr (take 100 (example_table 150))
   \<and> length (take 100 (example_table 150)) = 100
   \<and> alive (example_conn (example_table 1200))
   \<and> filtered_keys [PyStr ''Test@Example.com'', PyStr ''not-an-email''] = [''test@example.com'']
   \<and> fst (batch_by_emails (example_conn (example_table 1200))
             [PyStr ''Test@Example.com'', PyStr ''not-an-email''] None)
       = Inr (take 1000 (example_table 1200))
   \<and> length (take 1000 (example_table 1200)) = 1000
   \<and> normalize_place_id (PyStr ''ChIJ1 '') = Inr (Some ''ChIJ1'')
   \<and> fst (by_place_id (example_conn (example_table 150)) (PyStr ''ChIJ1 '') None)
       = Inr (find (\<lambda>r. place_id r = Some ''ChIJ1'') (example_table 150))"
proof -
  let ?c = "example_conn (example_table 150)"
  let ?b = "example_conn (example_table 1200)"
  let ?es = "[PyStr ''Test@Example.com'', PyStr ''not-an-email'']"
  have a: "alive ?c" and b: "alive ?b"
    by (simp_all add: example_conn_sel)
  have n1: "normalize_domain (PyStr ''https://www.example.com/'') = Inr (Some ''example.com'')"
    by (simp add: normalize_domain_def str_ev re_ev url_ev)
  have n2: "normalize_linkedin_url (PyStr ''https://www.linkedin.com/in/x/'') = Inr (Some ''linkedin.com/in/x'')"
    by (simp add: normalize_linkedin_url_def str_ev re_ev url_ev)
  have n3: "normalize_email (PyStr ''Test@Example.com'') = Inr (Some ''test@example.com'')"
    by (simp add: normalize_email_def str_ev re_ev)
  have n4: "normalize_google_id (PyStr '' 0x89c2'') = Inr (Some ''0x89c2'')"
    by (simp add: normalize_google_id_def str_ev)
  have n5: "filtered_keys ?es = [''test@example.com'']"
    by (simp add: filtered_keys_def normalize_email_def str_ev re_ev)
  have n6: "normalize_place_id (PyStr ''ChIJ1 '') = Inr (Some ''ChIJ1'')"
    by (simp add: normalize_place_id_def str_ev)
  have f1: "filter (where_domain ''%//example.com%'' ''%example.com%'') (example_table n) = example_table n" for n
    by (rule example_table_filter) (simp add: where_domain_def ilike_def example_row_def str_ev)
  have f2: "filter (where_linkedin ''%linkedin.com/in/x%'') (example_table n) = example_table n" for n
    by (rule example_table_filter) (simp add: where_linkedin_def ilike_def example_row_def str_ev)
  have f3: "filter (where_email ''test@example.com'') (example_table n) = example_table n" for n
    by (rule example_table_filter) (simp add: where_email_def example_row_def)
  have f4: "filter (where_google_id ''0x89c2'') (example_table n) = example_table n" for n
    by (rule example_table_filter) (simp add: where_google_id_def example_row_def)
  have f5: "filter (where_emails [''test@example.com'']) (example_table n) = example_table n" for n
    by (rule example_table_filter) (simp add: where_emails_def eq_any_def example_row_def)
  have l1: "length (filter (where_domain ''%//example.com%'' ''%example.com%'') (example_table 150)) = 150"
    by (simp add: f1 example_table_length)
  note T = result_caps [where conn = ?c and big = ?b and up = None and es = ?es
      and ?k1.0 = "PyStr ''https://www.example.com/''" and d = "''example.com''"
      and ?k2.0 = "PyStr ''https://www.linkedin.com/in/x/''" and l = "''linkedin.com/in/x''"
      and ?k3.0 = "PyStr ''Test@Example.com''" and e = "''test@example.com''"
      and ?k4.0 = "PyStr '' 0x89c2''" and g = "''0x89c2''"
      and ?k5.0 = "PyStr ''ChIJ1 ''" and p = "''ChIJ1''"
      and ?rs1.0 = "take 100 (example_table 150)" and ?rs2.0 = "take 100 (example_table 150)"
      and ?rs3.0 = "take 100 (example_table 150)" and ?rs4.0 = "take 100 (example_table 150)"
      and ?rs5.0 = "take 1000 (example_table 1200)"]
  note T1 = T [THEN conjunct2, THEN conjunct2, THEN conjunct2, THEN conjunct2, THEN conjunct2]
  note D = mp [OF T1 [THEN conjunct1] conjI [OF a n1], THEN conjunct1]
  note L = mp [OF T1 [THEN conjunct2, THEN conjunct1] conjI [OF a n2], THEN conjunct1]
  note M = mp [OF T1 [THEN conjunct2, THEN conjunct2, THEN conjunct1] conjI [OF a n3], THEN conjunct1]
  note G = mp [OF T1 [THEN conjunct2, THEN conjunct2, THEN conjunct2, THEN conjunct1] conjI [OF a n4],
      THEN conjunct1]
  have ne: "filtered_keys ?es \<noteq> []"
    by (simp add: n5)
  note B = mp [OF T1 [THEN conjunct2, THEN conjunct2, THEN conjunct2, THEN conjunct2, THEN conjunct1]
      conjI [OF b ne], THEN conjunct1]
  note P = mp [OF T1 [THEN conjunct2, THEN conjunct2, THEN conjunct2, THEN conjunct2, THEN conjunct2]
      conjI [OF a n6]]
  have c1: "fst (by_domain ?c (PyStr ''https://www.example.com/'') None)
       = Inr (take 100 (example_table 150))"
    using D by (simp add: example_conn_sel f1)
  have c2: "fst (by_linkedin ?c (PyStr ''https://www.linkedin.com/in/x/'') None)
       = Inr (take 100 (example_table 150))"
    using L by (simp add: example_conn_sel f2)
  have c3: "fst (by_email ?c (PyStr ''Test@Example.com'') None)
       = Inr (take 100 (example_table 150))"
    using M by (simp add: example_conn_sel f3)
  have c4: "fst (by_google_id ?c (PyStr '' 0x89c2'') None)
       = Inr (take 100 (example_table 150))"
    using G by (simp add: example_conn_sel f4)
  have c5': "length (take 100 (example_table 150)) = 100"
    by (simp add: example_table_length)
  have c6: "fst (batch_by_emails ?b ?es None) = Inr (take 1000 (example_table 1200))"
    using B by (simp add: n5 example_conn_sel f5)
  have c6': "length (take 1000 (example_table 1200)) = 1000"
    by (simp add: example_table_length)
  have c7': "fst (by_place_id ?c (PyStr ''ChIJ1 '') None)
       = Inr (find (\<lambda>r. place_id r = Some ''ChIJ1'') (example_table 150))"
    using P by (simp add: example_conn_sel)
  show ?thesis by (intro conjI a n1 l1 c1 n2 c2 n3 c3 n4 c4 c5' b n5 c6 c6' n6 c7')
qed

section \<open>Statement texts\<close>

text \<open>
  C8: every lookup sends at most one statement, and its text is a constant of the
  operation: the text written in the source where no prepared statement is passed, and
  the text of the prepared statement otherwise, which \<open>prepare_statements\<close> fixes to the
  same constants. The raw key occurs nowhere in it; the key's normal form, or the
  \<open>ILIKE\<close> patterns built from it, are the bound parameters. A rejected key sends
  nothing.
\<close>

theorem statements_constant:
  "issued (snd (by_domain conn k up)) = issued conn @
     (case normalize_domain k of
        Inr (Some d) \<Rightarrow>
          [(case up of None \<Rightarrow> BASE_SELECT @ '' WHERE site ILIKE $1 OR site ILIKE $2 LIMIT 100''
            | Some stmt \<Rightarrow> stmt,
            [PText (''%//'' @ d @ ''%''), PText (''%'' @ d @ ''%'')])]
      | _ \<Rightarrow> [])
   \<and> issued (snd (by_linkedin conn k up)) = issued conn @
     (case normalize_linkedin_url k of
        Inr (Some l) \<Rightarrow>
          [(case up of None \<Rightarrow> BASE_SELECT @ '' WHERE linkedin ILIKE $1 LIMIT 100''
            | Some stmt \<Rightarrow> stmt,
            [PText (''%'' @ l @ ''%'')])]
      | _ \<Rightarrow> [])
   \<and> issued (snd (by_place_id conn k up)) = issued conn @
     (case normalize_place_id k of
        Inr (Some p) \<Rightarrow>
          [(case up of None \<Rightarrow> BASE_SELECT @ '' WHERE place_id = $1 LIMIT 1''
            | Some stmt \<Rightarrow> stmt,
            [PText p])]
      | _ \<Rightarrow> [])
   \<and> issued (snd (by_email conn k up)) = issued conn @
     (case normalize_email k of
        Inr (Some e) \<Rightarrow>
          [(case up of None \<Rightarrow> BASE_SELECT @ '' WHERE email_1 = $1 OR email_2 = $1 OR email_3 = $1 LIMIT 100''
            | Some stmt \<Rightarrow> stmt,
            [PText e])]
      | _ \<Rightarrow> [])
   \<and> issued (snd (by_google_id conn k up)) = issued conn @
     (case normalize_google_id k of
        Inr (Some g) \<Rightarrow>
          [(case up of None \<Rightarrow> BASE_SELECT @ '' WHERE google_id = $1 OR cid = $1 OR kgmid = $1 LIMIT 100''
            | Some stmt \<Rightarrow> stmt,
            [PText g])]
      | _ \<Rightarrow> [])
   \<and> issued (snd (batch_by_emails conn es up)) = issued conn @
     (if filtered_keys es = [] then []
      else [(case up of None \<Rightarrow> BASE_SELECT @ '' WHERE email_1 = ANY($1::text[]) OR email_2 = ANY($1::text[]) OR email_3 = ANY($1::text[]) LIMIT 1000''
             | Some stmt \<Rightarrow> stmt,
             [PTextArray (filtered_keys es)])])
   \<and> issued (snd (enriched_contacts conn limit offset up)) = issued conn @
     [(case up of None \<Rightarrow> BASE_SELECT @ '' WHERE email_1 IS NOT NULL ORDER BY id LIMIT $1 OFFSET $2''
       | Some stmt \<Rightarrow> stmt,
       [PInt limit, PInt offset])]
   \<and> (prepare_statements conn = Inr stmts \<longrightarrow>
        stmts =
          [(''by_domain'', BASE_SELECT @ '' WHERE site ILIKE $1 OR site ILIKE $2 LIMIT 100''),
           (''by_linkedin'', BASE_SELECT @ '' WHERE linkedin ILIKE $1 LIMIT 100''),
           (''by_place_id'', BASE_SELECT @ '' WHERE place_id = $1 LIMIT 1''),
           (''by_email'', BASE_SELECT @ '' WHERE email_1 = $1 OR email_2 = $1 OR email_3 = $1 LIMIT 100''),
           (''by_google_id'', BASE_SELECT @ '' WHERE google_id = $1 OR cid = $1 OR kgmid = $1 LIMIT 100''),
           (''batch_by_emails'', BASE_SELECT @ '' WHERE email_1 = ANY($1::text[]) OR email_2 = ANY($1::text[]) OR email_3 = ANY($1::text[]) LIMIT 1000''),
           (''enriched_contacts'', BASE_SELECT @ '' WHERE email_1 IS NOT NULL ORDER BY id LIMIT $1 OFFSET $2'')])"
proof -
  have 1: "issued (snd (by_domain conn k up)) = issued conn @
     (case normalize_domain k of
        Inr (Some d) \<Rightarrow>
          [(case up of None \<Rightarrow> BASE_SELECT @ '' WHERE site ILIKE $1 OR site ILIKE $2 LIMIT 100''
            | Some stmt \<Rightarrow> stmt,
            [PText (''%//'' @ d @ ''%''), PText (''%'' @ d @ ''%'')])]
      | _ \<Rightarrow> [])"
    by (simp add: by_domain_closed fetch_snd split: sum.splits option.splits)
  have 2: "issued (snd (by_linkedin conn k up)) = issued conn @
     (case normalize_linkedin_url k of
        Inr (Some l) \<Rightarrow>
          [(case up of None \<Rightarrow> BASE_SELECT @ '' WHERE linkedin ILIKE $1 LIMIT 100''
            | Some stmt \<Rightarrow> stmt,
            [PText (''%'' @ l @ ''%'')])]
      | _ \<Rightarrow> [])"
    by (simp add: by_linkedin_closed fetch_snd split: sum.splits option.splits)
  have 3: "issued (snd (by_place_id conn k up)) = issued conn @
     (case normalize_place_id k of
        Inr (Some p) \<Rightarrow>
          [(case up of None \<Rightarrow> BASE_SELECT @ '' WHERE place_id = $1 LIMIT 1''
            | Some stmt \<Rightarrow> stmt,
            [PText p])]
      | _ \<Rightarrow> [])"
    by (simp add: by_place_id_closed fetchrow_snd split: sum.splits option.splits)
  have 4: "issued (snd (by_email conn k up)) = issued conn @
     (case normalize_email k of
        Inr (Some e) \<Rightarrow>
          [(case up of None \<Rightarrow> BASE_SELECT @ '' WHERE email_1 = $1 OR email_2 = $1 OR email_3 = $1 LIMIT 100''
            | Some stmt \<Rightarrow> stmt,
            [PText e])]
      | _ \<Rightarrow> [])"
    by (simp add: by_email_closed fetch_snd split: sum.splits option.splits)
  have 5: "issued (snd (by_google_id conn k up)) = issued conn @
     (case normalize_google_id k of
        Inr (Some g) \<Rightarrow>
          [(case up of None \<Rightarrow> BASE_SELECT @ '' WHERE google_id = $1 OR cid = $1 OR kgmid = $1 LIMIT 100''
            | Some stmt \<Rightarrow> stmt,
            [PText g])]
      | _ \<Rightarrow> [])"
    by (simp add: by_google_id_closed fetch_snd split: sum.splits option.splits)
  have 6: "issued (snd (batch_by_emails conn es up)) = issued conn @
     (if filtered_keys es = [] then []
      else [(case up of None \<Rightarrow> BASE_SELECT @ '' WHERE email_1 = ANY($1::text[]) OR email_2 = ANY($1::text[]) OR email_3 = ANY($1::text[]) LIMIT 1000''
             | Some stmt \<Rightarrow> stmt,
             [PTextArray (filtered_keys es)])])"
    by (simp add: batch_by_emails_closed fetch_snd)
  have 7: "issued (snd (enriched_contacts conn limit offset up)) = issued conn @
     [(case up of None \<Rightarrow> BASE_SELECT @ '' WHERE email_1 IS NOT NULL ORDER BY id LIMIT $1 OFFSET $2''
       | Some stmt \<Rightarrow> stmt,
       [PInt limit, PInt offset])]"
    by (simp add: enriched_contacts_def fetch_snd split: option.splits)
  have 8: "prepare_statements conn = Inr stmts \<longrightarrow>
        stmts =
          [(''by_domain'', BASE_SELECT @ '' WHERE site ILIKE $1 OR site ILIKE $2 LIMIT 100''),
           (''by_linkedin'', BASE_SELECT @ '' WHERE linkedin ILIKE $1 LIMIT 100''),
           (''by_place_id'', BASE_SELECT @ '' WHERE place_id = $1 LIMIT 1''),
           (''by_email'', BASE_SELECT @ '' WHERE email_1 = $1 OR email_2 = $1 OR email_3 = $1 LIMIT 100''),
           (''by_google_id'', BASE_SELECT @ '' WHERE google_id = $1 OR cid = $1 OR kgmid = $1 LIMIT 100''),
           (''batch_by_emails'', BASE_SELECT @ '' WHERE email_1 = ANY($1::text[]) OR email_2 = ANY($1::text[]) OR email_3 = ANY($1::text[]) LIMIT 1000''),
           (''enriched_contacts'', BASE_SELECT @ '' WHERE email_1 IS NOT NULL ORDER BY id LIMIT $1 OFFSET $2'')]"
    by (auto simp: prepare_statements_def split: if_splits)
  show ?thesis by (intro conjI 1 2 3 4 5 6 7 8)
qed

theorem statements_constant_witness:
  "prepare_statements (example_conn []) = Inr
          [(''by_domain'', BASE_SELECT @ '' WHERE site ILIKE $1 OR site ILIKE $2 LIMIT 100''),
           (''by_linkedin'', BASE_SELECT @ '' WHERE linkedin ILIKE $1 LIMIT 100''),
           (''by_place_id'', BASE_SELECT @ '' WHERE place_id = $1 LIMIT 1''),
           (''by_email'', BASE_SELECT @ '' WHERE email_1 = $1 OR email_2 = $1 OR email_3 = $1 LIMIT 100''),
           (''by_google_id'', BASE_SELECT @ '' WHERE google_id = $1 OR cid = $1 OR kgmid = $1 LIMIT 100''),
           (''batch_by_emails'', BASE_SELECT @ '' WHERE email_1 = ANY($1::text[]) OR email_2 = ANY($1::text[]) OR email_3 = ANY($1::text[]) LIMIT 1000''),
           (''enriched_contacts'', BASE_SELECT @ '' WHERE email_1 IS NOT NULL ORDER BY id LIMIT $1 OFFSET $2'')]
   \<and> issued (snd (by_email (example_conn []) (PyStr ''a@b.co; DROP TABLE businesses'') None)) = []
   \<and> issued (snd (by_place_id (example_conn []) (PyStr ''x' OR '1'='1'') None)) =
       [(BASE_SELECT @ '' WHERE place_id = $1 LIMIT 1'', [PText ''x' OR '1'='1''])]"
proof -
  obtain stmts where s: "prepare_statements (example_conn []) = Inr stmts"
    by (simp add: prepare_statements_def example_conn_def)
  have e: "normalize_email (PyStr ''a@b.co; DROP TABLE businesses'') = Inr None"
    by (simp add: normalize_email_def str_ev re_ev)
  have p: "normalize_place_id (PyStr ''x' OR '1'='1'') = Inr (Some ''x' OR '1'='1'')"
    by (simp add: normalize_place_id_def str_ev)
  have i: "issued (example_conn []) = []"
    by (simp add: example_conn_def)
  note T = statements_constant [where conn = "example_conn []" and stmts = stmts and up = None]
  from T s have 1: "stmts =
          [(''by_domain'', BASE_SELECT @ '' WHERE site ILIKE $1 OR site ILIKE $2 LIMIT 100''),
           (''by_linkedin'', BASE_SELECT @ '' WHERE linkedin ILIKE $1 LIMIT 100''),
           (''by_place_id'', BASE_SELECT @ '' WHERE place_id = $1 LIMIT 1''),
           (''by_email'', BASE_SELECT @ '' WHERE email_1 = $1 OR email_2 = $1 OR email_3 = $1 LIMIT 100''),
           (''by_google_id'', BASE_SELECT @ '' WHERE google_id = $1 OR cid = $1 OR kgmid = $1 LIMIT 100''),
           (''batch_by_emails'', BASE_SELECT @ '' WHERE email_1 = ANY($1::text[]) OR email_2 = ANY($1::text[]) OR email_3 = ANY($1::text[]) LIMIT 1000''),
           (''enriched_contacts'', BASE_SELECT @ '' WHERE email_1 IS NOT NULL ORDER BY id LIMIT $1 OFFSET $2'')]"
    by blast
  from T [where k = "PyStr ''a@b.co; DROP TABLE businesses''"]
  have 2: "issued (snd (by_email (example_conn []) (PyStr ''a@b.co; DROP TABLE businesses'') None)) = []"
    unfolding e i by simp
  from T [where k = "PyStr ''x' OR '1'='1''"]
  have 3: "issued (snd (by_place_id (example_conn []) (PyStr ''x' OR '1'='1'') None)) =
       [(BASE_SELECT @ '' WHERE place_id = $1 LIMIT 1'', [PText ''x' OR '1'='1''])]"
    unfolding p i by simp
  from s 1 2 3 show ?thesis by simp
qed

section \<open>Pagination of the enriched contacts\<close>

text \<open>
  C9: for a limit from 1 to 1000 and an offset of at least 0, where the storage
  answers, \<open>enriched_contacts\<close> and its endpoint return the enriched set (the rows
  whose \<open>email_1\<close> is not \<open>NULL\<close>, each as often as the table holds it, by ascending
  id) without its first \<open>offset\<close> rows, cut after \<open>limit\<close> rows. Where the ids are
  distinct, as those of a primary key are, the call with limit 10 and offset 0 followed
  by the call with limit 10 and offset 10 returns the first ten and the next ten rows
  of the enriched set: together its first twenty rows, with no row in both pages and
  strictly ascending ids throughout.
\<close>

theorem enriched_pagination:
  "(1 \<le> limit \<and> limit \<le> 1000 \<and> 0 \<le> offset \<and> alive conn \<longrightarrow>
      fst (enriched_contacts conn limit offset None)
        = Inr (take (nat limit) (drop (nat offset) (enriched_set (table conn))))
      \<and> fst (get_enriched_contacts conn limit offset)
        = Ok (length (take (nat limit) (drop (nat offset) (enriched_set (table conn)))),
              take (nat limit) (drop (nat offset) (enriched_set (table conn)))))
   \<and> count_list (enriched_set tbl) r = (if email_1 r \<noteq> None then count_list tbl r else 0)
   \<and> set (enriched_set tbl) = {r \<in> set tbl. email_1 r \<noteq> None}
   \<and> sorted (map business_id (enriched_set tbl))
   \<and> (alive c \<and> distinct (map business_id (table c)) \<longrightarrow>
        fst (enriched_contacts c 10 0 None) = Inr (take 10 (enriched_set (table c)))
        \<and> fst (enriched_contacts (snd (enriched_contacts c 10 0 None)) 10 10 None)
            = Inr (take 10 (drop 10 (enriched_set (table c))))
        \<and> take 10 (enriched_set (table c)) @ take 10 (drop 10 (enriched_set (table c)))
            = take 20 (enriched_set (table c))
        \<and> set (take 10 (enriched_set (table c))) \<inter> set (take 10 (drop 10 (enriched_set (table c)))) = {}
        \<and> sorted_wrt (<) (map business_id
             (take 10 (enriched_set (table c)) @ take 10 (drop 10 (enriched_set (table c))))))"
proof -
  have 1: "1 \<le> limit \<and> limit \<le> 1000 \<and> 0 \<le> offset \<and> alive conn \<longrightarrow>
      fst (enriched_contacts conn limit offset None)
        = Inr (take (nat limit) (drop (nat offset) (enriched_set (table conn))))
      \<and> fst (get_enriched_contacts conn limit offset)
        = Ok (length (take (nat limit) (drop (nat offset) (enriched_set (table conn)))),
              take (nat limit) (drop (nat offset) (enriched_set (table conn))))"
    by (simp add: enriched_endpoint_fst enriched_fst)
  have 5: "alive c \<and> distinct (map business_id (table c)) \<longrightarrow>
        fst (enriched_contacts c 10 0 None) = Inr (take 10 (enriched_set (table c)))
        \<and> fst (enriched_contacts (snd (enriched_contacts c 10 0 None)) 10 10 None)
            = Inr (take 10 (drop 10 (enriched_set (table c))))
        \<and> take 10 (enriched_set (table c)) @ take 10 (drop 10 (enriched_set (table c)))
            = take 20 (enriched_set (table c))
        \<and> set (take 10 (enriched_set (table c))) \<inter> set (take 10 (drop 10 (enriched_set (table c)))) = {}
        \<and> sorted_wrt (<) (map business_id
             (take 10 (enriched_set (table c)) @ take 10 (drop 10 (enriched_set (table c)))))"
  proof (intro impI, elim conjE)
    assume a: "alive c" and d: "distinct (map business_id (table c))"
    let ?E = "enriched_set (table c)"
    have p1: "fst (enriched_contacts c 10 0 None) = Inr (take 10 ?E)"
      using enriched_fst [of 10 0 c] a by simp
    have a': "alive (snd (enriched_contacts c 10 0 None))"
      using a by (simp add: enriched_snd)
    have p2: "fst (enriched_contacts (snd (enriched_contacts c 10 0 None)) 10 10 None)
            = Inr (take 10 (drop 10 ?E))"
      using enriched_fst [of 10 10 "snd (enriched_contacts c 10 0 None)"] a'
      by (simp add: enriched_snd)
    have j: "take 10 ?E @ take 10 (drop 10 ?E) = take 20 ?E"
      using two_pages [of 10 ?E] by simp
    have s: "sorted_wrt (<) (map business_id ?E)"
      using d by (rule enriched_set_strict)
    then have "distinct (map business_id ?E)"
      by (simp add: strict_sorted_iff)
    then have "distinct ?E"
      by (simp add: distinct_map)
    then have dj: "set (take 10 ?E) \<inter> set (take 10 (drop 10 ?E)) = {}"
      by (rule pages_disjoint)
    have o: "sorted_wrt (<) (map business_id (take 10 ?E @ take 10 (drop 10 ?E)))"
      unfolding j using s by (rule sorted_wrt_take_map)
    from p1 p2 j dj o show "fst (enriched_contacts c 10 0 None) = Inr (take 10 ?E)
        \<and> fst (enriched_contacts (snd (enriched_contacts c 10 0 None)) 10 10 None)
            = Inr (take 10 (drop 10 ?E))
        \<and> take 10 ?E @ take 10 (drop 10 ?E) = take 20 ?E
        \<and> set (take 10 ?E) \<inter> set (take 10 (drop 10 ?E)) = {}
        \<and> sorted_wrt (<) (map business_id (take 10 ?E @ take 10 (drop 10 ?E)))"
      by (intro conjI)
  qed
  show ?thesis
    by (intro conjI 1 enriched_set_count enriched_set_set enriched_set_sorted 5)
qed

theorem enriched_pagination_witness:
  "1 \<le> (10::int) \<and> (10::int) \<le> 1000 \<and> 0 \<le> (10::int)
   \<and> alive (example_conn (example_business 5 None None #
        map (\<lambda>i. example_business i None (Some ''a@b.co'')) [7, 3, 12, 1, 9, 4, 11, 2, 10, 6, 8, 13]))
   \<and> distinct (map business_id (table (example_conn (example_business 5 None None #
        map (\<lambda>i. example_business i None (Some ''a@b.co'')) [7, 3, 12, 1, 9, 4, 11, 2, 10, 6, 8, 13]))))
   \<and> fst (get_enriched_contacts (example_conn (example_business 5 None None #
        map (\<lambda>i. example_business i None (Some ''a@b.co'')) [7, 3, 12, 1, 9, 4, 11, 2, 10, 6, 8, 13])) 10 10)
       = Ok (2, map (\<lambda>i. example_business i None (Some ''a@b.co'')) [12, 13])
   \<and> fst (enriched_contacts (example_conn (example_business 5 None None #
        map (\<lambda>i. example_business i None (Some ''a@b.co'')) [7, 3, 12, 1, 9, 4, 11, 2, 10, 6, 8, 13])) 10 0 None)
       = Inr (map (\<lambda>i. example_business i None (Some ''a@b.co'')) [1, 2, 3, 4, 6, 7, 8, 9, 10, 11])
   \<and> fst (enriched_contacts (snd (enriched_contacts (example_conn (example_business 5 None None #
        map (\<lambda>i. example_business i None (Some ''a@b.co'')) [7, 3, 12, 1, 9, 4, 11, 2, 10, 6, 8, 13])) 10 0 None))
          10 10 None)
       = Inr (map (\<lambda>i. example_business i None (Some ''a@b.co'')) [12, 13])"
proof -
  let ?f = "\<lambda>i. example_business i None (Some ''a@b.co'')"
  let ?c = "example_conn (example_business 5 None None # map ?f [7, 3, 12, 1, 9, 4, 11, 2, 10, 6, 8, 13])"
  have a: "alive ?c"
    by (simp add: example_conn_sel)
  have d: "distinct (map business_id (table ?c))"
    by (simp add: example_conn_sel example_business_def)
  have E: "enriched_set (table ?c) = map ?f [1, 2, 3, 4, 6, 7, 8, 9, 10, 11, 12, 13]"
    by (simp add: example_conn_sel enriched_set_def where_enriched_def example_business_def)
  note T = enriched_pagination [where conn = ?c and limit = 10 and offset = 10 and c = ?c]
  from T a have "fst (get_enriched_contacts ?c 10 10)
        = Ok (length (take (nat 10) (drop (nat 10) (enriched_set (table ?c)))),
              take (nat 10) (drop (nat 10) (enriched_set (table ?c))))"
    by simp
  then have 1: "fst (get_enriched_contacts ?c 10 10) = Ok (2, map ?f [12, 13])"
    unfolding E by simp
  from T a d have "fst (enriched_contacts ?c 10 0 None) = Inr (take 10 (enriched_set (table ?c)))"
    by blast
  then have 2: "fst (enriched_contacts ?c 10 0 None) = Inr (map ?f [1, 2, 3, 4, 6, 7, 8, 9, 10, 11])"
    unfolding E by simp
  from T a d have "fst (enriched_contacts (snd (enriched_contacts ?c 10 0 None)) 10 10 None)
            = Inr (take 10 (drop 10 (enriched_set (table ?c))))"
    by blast
  then have 3: "fst (enriched_contacts (snd (enriched_contacts ?c 10 0 None)) 10 10 None)
            = Inr (map ?f [12, 13])"
    unfolding E by simp
  have b: "1 \<le> (10::int)" "(10::int) \<le> 1000" "0 \<le> (10::int)"
    by simp_all
  show ?thesis by (intro conjI b a d 1 2 3)
qed
section \<open>LinkedIn normalization checks a prefix only\<close>

text \<open>
  C10: \<open>normalize_linkedin_url\<close> accepts every input whose form without scheme (the
  \<open>netloc\<close> and \<open>path\<close> of \<open>urlparse\<close> where the input contains \<open>://\<close>, else the trimmed
  input) and without a leading \<open>www.\<close> merely starts with the twelve characters
  \<open>linkedin.com\<close>, whatever the case of the letters; the host need not be linkedin.com.
  It then returns that form lowercased and without trailing slashes. For
  \<open>linkedin.community/page\<close> and \<open>linkedin.com.evil.com/x\<close>, with or without a scheme,
  the result is the lowercased string without trailing slashes, not \<open>None\<close>.
\<close>

theorem linkedin_prefix_only:
  "normalize_linkedin_url (PyStr s) =
     Inr (case link_part (strip s) of
            None \<Rightarrow> None
          | Some a \<Rightarrow>
              if strip s \<noteq> [] \<and> startswith (lower (strip_www a)) ''linkedin.com''
              then Some (lower (rstrip_char CHR ''/'' (strip_www a))) else None)
   \<and> (link_part (strip s) = Some a \<and> startswith (lower (strip_www a)) ''linkedin.com''
        \<longrightarrow> normalize_linkedin_url (PyStr s) = Inr (Some (lower (rstrip_char CHR ''/'' (strip_www a)))))
   \<and> normalize_linkedin_url (PyStr ''linkedin.community/page'') = Inr (Some ''linkedin.community/page'')
   \<and> normalize_linkedin_url (PyStr ''linkedin.com.evil.com/x'') = Inr (Some ''linkedin.com.evil.com/x'')
   \<and> normalize_linkedin_url (PyStr ''www.LinkedIn.Community/Page/'') = Inr (Some ''linkedin.community/page'')
   \<and> link_part ''https://linkedin.com.evil.com/x'' = Some ''linkedin.com.evil.com/x''
   \<and> normalize_linkedin_url (PyStr ''https://linkedin.com.evil.com/x'') = Inr (Some ''linkedin.com.evil.com/x'')
   \<and> normalize_linkedin_url (PyStr ''HTTPS://WWW.LinkedIn.Community/Page/'') = Inr (Some ''linkedin.community/page'')"
proof -
  have e: "strip s \<noteq> []"
    if "link_part (strip s) = Some a" "startswith (lower (strip_www a)) ''linkedin.com''"
  proof
    assume "strip s = []"
    then have "a = []" using that(1) by (simp add: link_part_def)
    then show False using that(2) by (simp add: strip_www_def startswith_def lower_def)
  qed
  have 1: "link_part (strip s) = Some a \<and> startswith (lower (strip_www a)) ''linkedin.com''
        \<longrightarrow> normalize_linkedin_url (PyStr s) = Inr (Some (lower (rstrip_char CHR ''/'' (strip_www a))))"
    using e by (auto simp: normalize_linkedin_str)
  have 2: "normalize_linkedin_url (PyStr ''linkedin.community/page'') = Inr (Some ''linkedin.community/page'')"
    by (simp add: normalize_linkedin_url_def str_ev re_ev)
  have 3: "normalize_linkedin_url (PyStr ''linkedin.com.evil.com/x'') = Inr (Some ''linkedin.com.evil.com/x'')"
    by (simp add: normalize_linkedin_url_def str_ev re_ev)
  have 4: "normalize_linkedin_url (PyStr ''www.LinkedIn.Community/Page/'') = Inr (Some ''linkedin.community/page'')"
    by (simp add: normalize_linkedin_url_def str_ev re_ev)
  have 5: "link_part ''https://linkedin.com.evil.com/x'' = Some ''linkedin.com.evil.com/x''"
    by (simp add: link_part_def str_ev url_ev)
  have 6: "normalize_linkedin_url (PyStr ''https://linkedin.com.evil.com/x'') = Inr (Some ''linkedin.com.evil.com/x'')"
    by (simp add: normalize_linkedin_url_def str_ev re_ev url_ev)
  have 7: "normalize_linkedin_url (PyStr ''HTTPS://WWW.LinkedIn.Community/Page/'') = Inr (Some ''linkedin.community/page'')"
    by (simp add: normalize_linkedin_url_def str_ev re_ev url_ev)
  show ?thesis by (intro conjI normalize_linkedin_str 1 2 3 4 5 6 7)
qed

theorem linkedin_prefix_only_witness:
  "link_part (strip ''  https://www.LinkedIn.com.evil.com/x/'') = Some ''www.LinkedIn.com.evil.com/x/''
   \<and> startswith (lower (strip_www ''www.LinkedIn.com.evil.com/x/'')) ''linkedin.com''
   \<and> normalize_linkedin_url (PyStr ''  https://www.LinkedIn.com.evil.com/x/'')
       = Inr (Some ''linkedin.com.evil.com/x'')"
proof -
  have h1: "link_part (strip ''  https://www.LinkedIn.com.evil.com/x/'') = Some ''www.LinkedIn.com.evil.com/x/''"
    by (simp add: link_part_def str_ev url_ev)
  have h2: "startswith (lower (strip_www ''www.LinkedIn.com.evil.com/x/'')) ''linkedin.com''"
    by (simp add: strip_www_def str_ev)
  have v: "lower (rstrip_char CHR ''/'' (strip_www ''www.LinkedIn.com.evil.com/x/'')) = ''linkedin.com.evil.com/x''"
    by (simp add: strip_www_def str_ev)
  from linkedin_prefix_only [of "''  https://www.LinkedIn.com.evil.com/x/''" "''www.LinkedIn.com.evil.com/x/''"]
  have "link_part (strip ''  https://www.LinkedIn.com.evil.com/x/'') = Some ''www.LinkedIn.com.evil.com/x/''
        \<and> startswith (lower (strip_www ''www.LinkedIn.com.evil.com/x/'')) ''linkedin.com''
        \<longrightarrow> normalize_linkedin_url (PyStr ''  https://www.LinkedIn.com.evil.com/x/'')
            = Inr (Some (lower (rstrip_char CHR ''/'' (strip_www ''www.LinkedIn.com.evil.com/x/''))))"
    by blast
  with h1 h2 have "normalize_linkedin_url (PyStr ''  https://www.LinkedIn.com.evil.com/x/'')
            = Inr (Some (lower (rstrip_char CHR ''/'' (strip_www ''www.LinkedIn.com.evil.com/x/''))))"
    by blast
  then show ?thesis using h1 h2 v by simp
qed

text \<open>
  Where \<open>urlparse\<close> raises, the input is rejected although the text after the scheme
  starts with \<open>linkedin.com\<close>.
\<close>

lemma linkedin_urlparse_raises:
  "normalize_linkedin_url (PyStr ''http://linkedin.com[/x'') = Inr None"
  by (simp add: normalize_linkedin_url_def str_ev re_ev url_ev)
end
